theory Spec2Isabelle
  imports Complex_Main "HOL-Library.Multiset"
begin

section \<open>Data model\<close>

text \<open>
  The platform keeps its data in database tables and reads and writes them from client
  pages.  A table is modelled as the list of its rows, a UUID as a natural number, and a
  timestamp as an integer number of milliseconds since the epoch (the resolution of the
  client's \<^verbatim>\<open>Date\<close>).  A nullable column is an \<open>option\<close>.  The value of
  \<^verbatim>\<open>auth.uid()\<close> is \<open>None\<close> for an anonymous request and \<open>Some u\<close> for the
  authenticated user \<open>u\<close>.  Statements run one at a time.  The values that the database
  or the client draws for a statement (a generated id, \<^verbatim>\<open>NOW()\<close>, the client's clock)
  are parameters of the functions below.
\<close>

type_synonym uuid = nat
type_synonym timestamptz = int

subsection \<open>Direct messages: \<^verbatim>\<open>dm_messages\<close>, \<^verbatim>\<open>dm_threads\<close>, \<^verbatim>\<open>dm_thread_reads\<close>\<close>

record dm_thread =
  t_id :: uuid
  t_user_a :: uuid
  t_user_b :: uuid
  t_created_at :: timestamptz

record dm_message =
  dm_id :: uuid
  dm_thread_id :: uuid
  dm_sender_id :: uuid
  dm_body :: string
  dm_created_at :: timestamptz

record dm_thread_read =
  dr_thread_id :: uuid
  dr_user_id :: uuid
  dr_last_read_at :: "timestamptz option"
  dr_last_read_message_id :: "uuid option"

subsection \<open>Roleplay sessions\<close>

text \<open>
  The columns that no statement or page function below reads or writes (\<^verbatim>\<open>closed_by\<close>,
  \<^verbatim>\<open>closed_at\<close>, \<^verbatim>\<open>name\<close> and \<^verbatim>\<open>style\<close> of a session) are left out.
\<close>

record rp_session =
  s_id :: uuid
  user_a :: uuid
  user_b :: uuid
  status :: string
  is_active :: bool
  last_message_at :: "timestamptz option"
  reminder_sent_at :: "timestamptz option"
  s_created_at :: timestamptz
  updated_at :: timestamptz
  is_public :: bool
  max_viewers :: "int option"

record rp_session_message =
  m_id :: uuid
  m_session_id :: uuid
  sender_id :: uuid
  message_type :: string
  body :: string
  character_id :: "uuid option"
  m_created_at :: timestamptz
  edited_at :: "timestamptz option"

record rp_session_read =
  sr_session_id :: uuid
  sr_user_id :: uuid
  sr_last_read_at :: "timestamptz option"
  sr_last_read_message_id :: "uuid option"

section \<open>Unread counts of the inbox pages\<close>

text \<open>
  \<^verbatim>\<open>maybeSingle()\<close> gives the row when the query selects exactly one, and no data
  when it selects none or (with an error) more than one.
\<close>

fun maybeSingle :: "'a list \<Rightarrow> 'a option" where
  "maybeSingle [r] = Some r"
| "maybeSingle _ = None"

text \<open>
  A \<^verbatim>\<open>select("id", { count: "exact", head: true })\<close> with its filters; the page
  reads \<^verbatim>\<open>count || 0\<close>.
\<close>

definition count_exact :: "('a \<Rightarrow> bool) \<Rightarrow> 'a list \<Rightarrow> nat" where
  "count_exact p rows = length (filter p rows)"

text \<open>
  \<^verbatim>\<open>DmInboxPage.load\<close>, the unread count of one thread (src/app/dm/page.tsx).  The
  user reads the messages and the read record of a thread they take part in.
\<close>

definition dm_unread_count ::
  "uuid \<Rightarrow> dm_thread \<Rightarrow> dm_message list \<Rightarrow> dm_thread_read list \<Rightarrow> nat" where
  "dm_unread_count me thread messages reads =
     (let otherUserId = (if t_user_a thread = me then t_user_b thread else t_user_a thread);
          readData = maybeSingle (filter (\<lambda>r. dr_thread_id r = t_id thread \<and> dr_user_id r = me)
                                    reads)
      in case readData of
           None \<Rightarrow>
             count_exact (\<lambda>m. dm_thread_id m = t_id thread \<and> dm_sender_id m = otherUserId)
               messages
         | Some rd \<Rightarrow>
             (case dr_last_read_at rd of
                None \<Rightarrow>
                  count_exact (\<lambda>m. dm_thread_id m = t_id thread \<and> dm_sender_id m = otherUserId)
                    messages
              | Some last_read \<Rightarrow>
                  count_exact (\<lambda>m. dm_thread_id m = t_id thread \<and> dm_sender_id m = otherUserId
                                    \<and> dm_created_at m > last_read)
                    messages))"

text \<open>\<^verbatim>\<open>SessionsPage.load\<close>, the unread count of one session (the sessions page).\<close>

definition session_unread_count ::
  "uuid \<Rightarrow> rp_session \<Rightarrow> rp_session_message list \<Rightarrow> rp_session_read list \<Rightarrow> nat" where
  "session_unread_count userId session messages reads =
     (let otherUserId = (if user_a session = userId then user_b session else user_a session);
          readData = maybeSingle (filter (\<lambda>r. sr_session_id r = s_id session \<and> sr_user_id r = userId)
                                    reads)
      in case readData of
           None \<Rightarrow>
             count_exact (\<lambda>m. m_session_id m = s_id session \<and> sender_id m = otherUserId)
               messages
         | Some rd \<Rightarrow>
             (case sr_last_read_at rd of
                None \<Rightarrow>
                  count_exact (\<lambda>m. m_session_id m = s_id session \<and> sender_id m = otherUserId)
                    messages
              | Some last_read \<Rightarrow>
                  count_exact (\<lambda>m. m_session_id m = s_id session \<and> sender_id m = otherUserId
                                    \<and> m_created_at m > last_read)
                    messages))"


section \<open>The database: tables, policies, constraints and triggers\<close>

record rp_response_time =
  rt_id :: uuid
  rt_user_id :: uuid
  rt_session_id :: uuid
  response_time_seconds :: int
  rt_created_at :: timestamptz

record rp_session_viewer =
  v_id :: uuid
  v_session_id :: uuid
  v_user_id :: uuid
  joined_at :: timestamptz
  last_seen :: timestamptz

record db =
  rp_sessions :: "rp_session list"
  rp_session_messages :: "rp_session_message list"
  rp_response_times :: "rp_response_time list"
  rp_session_viewers :: "rp_session_viewer list"

text \<open>
  A statement that the database refuses is an error value; the tables then stay as they
  were.
\<close>

datatype db_error =
  RowLevelSecurity | CheckViolation | UniqueViolation | ForeignKeyViolation | IntegerOutOfRange

text \<open>\<^verbatim>\<open>ORDER BY key DESC\<close>, ties in stored order; \<^verbatim>\<open>LIMIT n\<close> is \<open>take n\<close>.\<close>

definition order_desc :: "('a \<Rightarrow> int) \<Rightarrow> 'a list \<Rightarrow> 'a list" where
  "order_desc key rows = sort_key (\<lambda>r. - key r) rows"

text \<open>\<^verbatim>\<open>SELECT ... INTO\<close> of PL/pgSQL: the first row, or NULL when there is none.\<close>

definition select_into :: "'a list \<Rightarrow> 'a option" where
  "select_into rows = (case rows of [] \<Rightarrow> None | r # _ \<Rightarrow> Some r)"

subsection \<open>\<^verbatim>\<open>rp_sessions\<close>\<close>

text \<open>
  \<^verbatim>\<open>CHECK (status IN ('active', 'closed'))\<close> of session_schema.sql, and the row-level
  security policies of the table: the participants' policies of session_schema.sql and
  the policy "Anyone can view public sessions" of the viewer migrations.  The policies
  for SELECT are permissive, so a row is visible when either admits it.  The UPDATE
  policy has the same expression under USING and WITH CHECK.
\<close>

definition rp_sessions_check :: "rp_session \<Rightarrow> bool" where
  "rp_sessions_check s \<longleftrightarrow> status s = ''active'' \<or> status s = ''closed''"

definition rp_sessions_select_participants :: "uuid option \<Rightarrow> rp_session \<Rightarrow> bool" where
  "rp_sessions_select_participants uid s \<longleftrightarrow> uid = Some (user_a s) \<or> uid = Some (user_b s)"

definition anyone_can_view_public_sessions :: "rp_session \<Rightarrow> bool" where
  "anyone_can_view_public_sessions s \<longleftrightarrow> is_public s = True"

definition rp_sessions_visible :: "uuid option \<Rightarrow> rp_session \<Rightarrow> bool" where
  "rp_sessions_visible uid s \<longleftrightarrow>
     rp_sessions_select_participants uid s \<or> anyone_can_view_public_sessions s"

definition rp_sessions_insert_participants :: "uuid option \<Rightarrow> rp_session \<Rightarrow> bool" where
  "rp_sessions_insert_participants uid s \<longleftrightarrow> uid = Some (user_a s) \<or> uid = Some (user_b s)"

definition rp_sessions_update_participants :: "uuid option \<Rightarrow> rp_session \<Rightarrow> bool" where
  "rp_sessions_update_participants uid s \<longleftrightarrow> uid = Some (user_a s) \<or> uid = Some (user_b s)"

text \<open>
  \<^verbatim>\<open>CONSTRAINT unique_active_session UNIQUE (user_a, user_b, status)\<close>.  It is
  deferred to the end of the transaction, which for a request of the client is the end of
  the statement.  An INSERT is refused when a stored row has the triple of the new row.
  An UPDATE is refused when a row comes out of it with a triple that it did not have
  before and that more than one row of the table then has; a row that keeps its triple
  cannot come into conflict in a table that satisfied the constraint before.
\<close>

definition unique_active_session :: "rp_session \<Rightarrow> uuid \<times> uuid \<times> string" where
  "unique_active_session s = (user_a s, user_b s, status s)"

definition unique_active_session_violated :: "rp_session list \<Rightarrow> rp_session list \<Rightarrow> bool" where
  "unique_active_session_violated old new \<longleftrightarrow>
     (\<exists>(s, s') \<in> set (zip old new).
        unique_active_session s' \<noteq> unique_active_session s \<and>
        1 < length (filter (\<lambda>x. unique_active_session x = unique_active_session s') new))"

text \<open>
  \<^verbatim>\<open>INSERT INTO rp_sessions\<close>: the INSERT policy, the CHECK constraint, the primary
  key and \<^verbatim>\<open>unique_active_session\<close>.
\<close>

definition insert_rp_session :: "uuid option \<Rightarrow> rp_session \<Rightarrow> db \<Rightarrow> db_error + db" where
  "insert_rp_session uid NEW d =
     (if \<not> rp_sessions_insert_participants uid NEW then Inl RowLevelSecurity
      else if \<not> rp_sessions_check NEW then Inl CheckViolation
      else if s_id NEW \<in> set (map s_id (rp_sessions d)) then Inl UniqueViolation
      else if unique_active_session NEW \<in> set (map unique_active_session (rp_sessions d))
           then Inl UniqueViolation
      else Inr (d\<lparr>rp_sessions := rp_sessions d @ [NEW]\<rparr>))"

text \<open>
  An UPDATE row by row: the first refused row aborts the statement.
\<close>

fun update_rows :: "('a \<Rightarrow> db_error + 'a) \<Rightarrow> 'a list \<Rightarrow> db_error + 'a list" where
  "update_rows f [] = Inr []"
| "update_rows f (r # rs) =
     (case f r of
        Inl e \<Rightarrow> Inl e
      | Inr r' \<Rightarrow> (case update_rows f rs of Inl e \<Rightarrow> Inl e | Inr rs' \<Rightarrow> Inr (r' # rs')))"

text \<open>
  \<^verbatim>\<open>UPDATE rp_sessions SET ... WHERE ...\<close> issued with \<^verbatim>\<open>auth.uid() = uid\<close>.  Rows
  that the SELECT policies or the USING expression of the UPDATE policy hide are skipped
  without an error.  The trigger \<^verbatim>\<open>update_rp_sessions_updated_at_trigger\<close> stamps
  every updated row before it is stored; the new row must pass WITH CHECK and the CHECK
  constraint (a new row that passes WITH CHECK is also one the user may read), and the
  table \<^verbatim>\<open>unique_active_session\<close>.  A SET clause that changes the primary key is not
  treated.
\<close>

definition update_rp_sessions_updated_at :: "timestamptz \<Rightarrow> rp_session \<Rightarrow> rp_session" where
  "update_rp_sessions_updated_at now NEW = NEW\<lparr>updated_at := now\<rparr>"

definition update_rp_session_row ::
  "uuid option \<Rightarrow> timestamptz \<Rightarrow> (rp_session \<Rightarrow> bool) \<Rightarrow> (rp_session \<Rightarrow> rp_session)
     \<Rightarrow> rp_session \<Rightarrow> db_error + rp_session" where
  "update_rp_session_row uid now wh set_cols s =
     (if wh s \<and> rp_sessions_visible uid s \<and> rp_sessions_update_participants uid s
      then (let NEW = update_rp_sessions_updated_at now (set_cols s)
            in if \<not> rp_sessions_update_participants uid NEW then Inl RowLevelSecurity
               else if \<not> rp_sessions_check NEW then Inl CheckViolation
               else Inr NEW)
      else Inr s)"

definition update_rp_sessions ::
  "uuid option \<Rightarrow> timestamptz \<Rightarrow> (rp_session \<Rightarrow> bool) \<Rightarrow> (rp_session \<Rightarrow> rp_session)
     \<Rightarrow> db \<Rightarrow> db_error + db" where
  "update_rp_sessions uid now wh set_cols d =
     (case update_rows (update_rp_session_row uid now wh set_cols) (rp_sessions d) of
        Inl e \<Rightarrow> Inl e
      | Inr rows \<Rightarrow>
          if unique_active_session_violated (rp_sessions d) rows then Inl UniqueViolation
          else Inr (d\<lparr>rp_sessions := rows\<rparr>))"

subsection \<open>\<^verbatim>\<open>rp_session_messages\<close> and the trigger \<^verbatim>\<open>calculate_response_time\<close>\<close>

text \<open>
  \<^verbatim>\<open>CHECK (message_type IN ('ooc', 'narration'))\<close>, the INSERT policy of
  session_schema.sql and the SELECT policy as the viewer migration replaces it.  The
  subquery of a policy reads \<^verbatim>\<open>rp_sessions\<close> under that table's own policies.
\<close>

definition rp_session_messages_check :: "rp_session_message \<Rightarrow> bool" where
  "rp_session_messages_check m \<longleftrightarrow> message_type m = ''ooc'' \<or> message_type m = ''narration''"

definition rp_session_messages_insert_sender ::
  "uuid option \<Rightarrow> rp_session list \<Rightarrow> rp_session_message \<Rightarrow> bool" where
  "rp_session_messages_insert_sender uid sessions m \<longleftrightarrow>
     uid = Some (sender_id m) \<and>
     (\<exists>s \<in> set sessions. rp_sessions_visible uid s \<and> s_id s = m_session_id m \<and>
        (uid = Some (user_a s) \<or> uid = Some (user_b s)))"

definition rp_session_messages_select_participants ::
  "uuid option \<Rightarrow> rp_session list \<Rightarrow> rp_session_message \<Rightarrow> bool" where
  "rp_session_messages_select_participants uid sessions m \<longleftrightarrow>
     (\<exists>s \<in> set sessions. rp_sessions_visible uid s \<and> s_id s = m_session_id m \<and>
        ((uid \<noteq> None \<and> (uid = Some (user_a s) \<or> uid = Some (user_b s))) \<or> is_public s = True))"

text \<open>
  \<^verbatim>\<open>prev_message IS NOT NULL\<close> on a PL/pgSQL record holds when a row was found and
  none of its fields is NULL; the nullable columns of a message are \<^verbatim>\<open>character_id\<close>
  and \<^verbatim>\<open>edited_at\<close>.
\<close>

definition row_is_not_null :: "rp_session_message option \<Rightarrow> bool" where
  "row_is_not_null r =
     (case r of None \<Rightarrow> False | Some m \<Rightarrow> character_id m \<noteq> None \<and> edited_at m \<noteq> None)"

text \<open>
  \<^verbatim>\<open>EXTRACT(EPOCH FROM (t1 - t0))::INTEGER\<close> for a difference of \<open>ms\<close> milliseconds:
  the seconds, rounded to the nearest integer (halves away from zero); a value outside
  the 32-bit range is an error.
\<close>

definition epoch_seconds :: "int \<Rightarrow> int" where
  "epoch_seconds ms = (if 0 \<le> ms then (ms + 500) div 1000 else - ((- ms + 500) div 1000))"

definition to_integer :: "int \<Rightarrow> db_error + int" where
  "to_integer n = (if - 2147483648 \<le> n \<and> n \<le> 2147483647 then Inr n else Inl IntegerOutOfRange)"

definition prev_message_query ::
  "uuid option \<Rightarrow> rp_session_message \<Rightarrow> db \<Rightarrow> rp_session_message option" where
  "prev_message_query uid NEW d =
     select_into (take 1 (order_desc m_created_at
       (filter (\<lambda>m. rp_session_messages_select_participants uid (rp_sessions d) m \<and>
                     m_session_id m = m_session_id NEW \<and>
                     sender_id m \<noteq> sender_id NEW \<and>
                     m_created_at m < m_created_at NEW)
          (rp_session_messages d))))"

definition calculate_response_time ::
  "uuid option \<Rightarrow> timestamptz \<Rightarrow> uuid \<Rightarrow> rp_session_message \<Rightarrow> db \<Rightarrow> db_error + db" where
  "calculate_response_time uid now new_id NEW d =
     (let session_is_active =
            map_option is_active
              (select_into (filter (\<lambda>s. rp_sessions_visible uid s \<and> s_id s = m_session_id NEW)
                              (rp_sessions d)));
          recorded =
            (if session_is_active = Some True then
               (let prev_message = prev_message_query uid NEW d
                in case prev_message of
                     None \<Rightarrow> Inr d
                   | Some prev \<Rightarrow>
                       if row_is_not_null prev_message then
                         (case to_integer (epoch_seconds (m_created_at NEW - m_created_at prev)) of
                            Inl e \<Rightarrow> Inl e
                          | Inr response_seconds \<Rightarrow>
                              Inr (d\<lparr>rp_response_times := rp_response_times d @
                                     [\<lparr>rt_id = new_id, rt_user_id = sender_id NEW,
                                       rt_session_id = m_session_id NEW,
                                       response_time_seconds = response_seconds,
                                       rt_created_at = now\<rparr>]\<rparr>))
                       else Inr d)
             else Inr d)
      in case recorded of
           Inl e \<Rightarrow> Inl e
         | Inr d1 \<Rightarrow>
             update_rp_sessions uid now (\<lambda>s. s_id s = m_session_id NEW)
               (\<lambda>s. s\<lparr>last_message_at := Some (m_created_at NEW)\<rparr>) d1)"

text \<open>
  \<^verbatim>\<open>INSERT INTO rp_session_messages\<close> of the row \<open>NEW\<close> (its defaults filled in),
  followed by the AFTER INSERT trigger, which runs with the inserting user's rights.
\<close>

definition insert_rp_session_message ::
  "uuid option \<Rightarrow> timestamptz \<Rightarrow> uuid \<Rightarrow> rp_session_message \<Rightarrow> db \<Rightarrow> db_error + db" where
  "insert_rp_session_message uid now new_id NEW d =
     (if \<not> rp_session_messages_insert_sender uid (rp_sessions d) NEW then Inl RowLevelSecurity
      else if \<not> rp_session_messages_check NEW then Inl CheckViolation
      else if m_id NEW \<in> set (map m_id (rp_session_messages d)) then Inl UniqueViolation
      else if m_session_id NEW \<notin> set (map s_id (rp_sessions d)) then Inl ForeignKeyViolation
      else calculate_response_time uid now new_id NEW
             (d\<lparr>rp_session_messages := rp_session_messages d @ [NEW]\<rparr>))"

text \<open>
  \<^verbatim>\<open>UPDATE rp_session_messages SET ... WHERE ...\<close> under the policy
  \<^verbatim>\<open>rp_session_messages_update_sender\<close> (session_schema.sql and the migration that
  adds \<^verbatim>\<open>edited_at\<close>): USING and WITH CHECK both ask only for
  \<^verbatim>\<open>auth.uid() = sender_id\<close>.  Rows the user may not read or update are skipped;
  the new row must pass WITH CHECK, be readable by the user, and satisfy the CHECK
  constraint and the foreign key to the session.  No trigger is declared for UPDATE.  A
  SET clause that changes the primary key is not treated.
\<close>

definition rp_session_messages_update_sender :: "uuid option \<Rightarrow> rp_session_message \<Rightarrow> bool" where
  "rp_session_messages_update_sender uid m \<longleftrightarrow> uid = Some (sender_id m)"

definition update_rp_session_message_row ::
  "uuid option \<Rightarrow> rp_session list \<Rightarrow> (rp_session_message \<Rightarrow> bool)
     \<Rightarrow> (rp_session_message \<Rightarrow> rp_session_message) \<Rightarrow> rp_session_message
     \<Rightarrow> db_error + rp_session_message" where
  "update_rp_session_message_row uid sessions wh set_cols m =
     (if wh m \<and> rp_session_messages_select_participants uid sessions m \<and>
         rp_session_messages_update_sender uid m
      then (let NEW = set_cols m
            in if rp_session_messages_update_sender uid NEW \<and>
                  rp_session_messages_select_participants uid sessions NEW
               then (if rp_session_messages_check NEW
                     then (if m_session_id NEW \<in> set (map s_id sessions) then Inr NEW
                           else Inl ForeignKeyViolation)
                     else Inl CheckViolation)
               else Inl RowLevelSecurity)
      else Inr m)"

definition update_rp_session_messages ::
  "uuid option \<Rightarrow> (rp_session_message \<Rightarrow> bool) \<Rightarrow> (rp_session_message \<Rightarrow> rp_session_message)
     \<Rightarrow> db \<Rightarrow> db_error + db" where
  "update_rp_session_messages uid wh set_cols d =
     (case update_rows (update_rp_session_message_row uid (rp_sessions d) wh set_cols)
             (rp_session_messages d) of
        Inl e \<Rightarrow> Inl e
      | Inr rows \<Rightarrow> Inr (d\<lparr>rp_session_messages := rows\<rparr>))"

subsection \<open>\<^verbatim>\<open>rp_session_viewers\<close> and the trigger \<^verbatim>\<open>update_session_max_viewers\<close>\<close>

text \<open>The four policies of the table (add_session_viewers.sql).\<close>

definition anyone_can_view_session_viewers ::
  "uuid option \<Rightarrow> rp_session list \<Rightarrow> rp_session_viewer \<Rightarrow> bool" where
  "anyone_can_view_session_viewers uid sessions v \<longleftrightarrow>
     (\<exists>s \<in> set sessions. rp_sessions_visible uid s \<and> s_id s = v_session_id v \<and> is_public s = True)
     \<or>
     (\<exists>s \<in> set sessions. rp_sessions_visible uid s \<and> s_id s = v_session_id v \<and>
        (Some (user_a s) = uid \<or> Some (user_b s) = uid))"

definition users_can_join_as_viewers :: "uuid option \<Rightarrow> rp_session_viewer \<Rightarrow> bool" where
  "users_can_join_as_viewers uid v \<longleftrightarrow> uid = Some (v_user_id v)"

definition users_can_update_their_viewer_status :: "uuid option \<Rightarrow> rp_session_viewer \<Rightarrow> bool" where
  "users_can_update_their_viewer_status uid v \<longleftrightarrow> uid = Some (v_user_id v)"

definition users_can_leave_session_view :: "uuid option \<Rightarrow> rp_session_viewer \<Rightarrow> bool" where
  "users_can_leave_session_view uid v \<longleftrightarrow> uid = Some (v_user_id v)"

text \<open>
  The trigger function.  It is declared without \<^verbatim>\<open>SECURITY DEFINER\<close>, so its statements
  run with the rights of the user whose statement fired the trigger, under the policies
  above: the count sees the viewer rows that user may select, and the UPDATE of
  \<^verbatim>\<open>rp_sessions\<close> reaches only rows that user may update.  \<^verbatim>\<open>session_id\<close> is
  NOT NULL, so the early return for a NULL \<^verbatim>\<open>session_uuid\<close> is never taken.  When no
  session row is visible, \<^verbatim>\<open>current_max_viewers\<close> is NULL and the comparison is not
  true.
\<close>

definition update_session_max_viewers ::
  "uuid option \<Rightarrow> timestamptz \<Rightarrow> rp_session_viewer \<Rightarrow> db \<Rightarrow> db_error + db" where
  "update_session_max_viewers uid now ROW d =
     (let session_uuid = v_session_id ROW;
          current_viewer_count =
            int (length (filter (\<lambda>v. anyone_can_view_session_viewers uid (rp_sessions d) v \<and>
                                      v_session_id v = session_uuid)
                           (rp_session_viewers d)));
          current_max_viewers =
            map_option (\<lambda>s. case max_viewers s of None \<Rightarrow> 0 | Some n \<Rightarrow> n)
              (select_into (filter (\<lambda>s. rp_sessions_visible uid s \<and> s_id s = session_uuid)
                              (rp_sessions d)))
      in case current_max_viewers of
           None \<Rightarrow> Inr d
         | Some cmax \<Rightarrow>
             if current_viewer_count > cmax then
               update_rp_sessions uid now (\<lambda>s. s_id s = session_uuid)
                 (\<lambda>s. s\<lparr>max_viewers := Some current_viewer_count\<rparr>) d
             else Inr d)"

text \<open>
  \<^verbatim>\<open>INSERT INTO rp_session_viewers\<close>: the INSERT policy, the primary key and
  \<^verbatim>\<open>UNIQUE(session_id, user_id)\<close>, the foreign key to the session, then
  \<^verbatim>\<open>trigger_update_max_viewers_insert\<close>.
\<close>

definition insert_rp_session_viewer ::
  "uuid option \<Rightarrow> timestamptz \<Rightarrow> rp_session_viewer \<Rightarrow> db \<Rightarrow> db_error + db" where
  "insert_rp_session_viewer uid now NEW d =
     (if \<not> users_can_join_as_viewers uid NEW then Inl RowLevelSecurity
      else if v_id NEW \<in> set (map v_id (rp_session_viewers d)) \<or>
              (v_session_id NEW, v_user_id NEW) \<in>
                 set (map (\<lambda>v. (v_session_id v, v_user_id v)) (rp_session_viewers d))
           then Inl UniqueViolation
      else if v_session_id NEW \<notin> set (map s_id (rp_sessions d)) then Inl ForeignKeyViolation
      else update_session_max_viewers uid now NEW
             (d\<lparr>rp_session_viewers := rp_session_viewers d @ [NEW]\<rparr>))"

text \<open>
  \<^verbatim>\<open>UPDATE rp_session_viewers SET last_seen = t WHERE session_id = sid AND user_id = u\<close>:
  the rows the user may select and update get the new value; then
  \<^verbatim>\<open>trigger_update_max_viewers_update\<close> fires for each of them whose
  \<^verbatim>\<open>last_seen\<close> changed.
\<close>

fun fire_triggers :: "('r \<Rightarrow> db \<Rightarrow> db_error + db) \<Rightarrow> 'r list \<Rightarrow> db \<Rightarrow> db_error + db" where
  "fire_triggers trg [] d = Inr d"
| "fire_triggers trg (r # rs) d =
     (case trg r d of Inl e \<Rightarrow> Inl e | Inr d' \<Rightarrow> fire_triggers trg rs d')"

definition update_last_seen ::
  "uuid option \<Rightarrow> timestamptz \<Rightarrow> uuid \<Rightarrow> uuid \<Rightarrow> timestamptz \<Rightarrow> db \<Rightarrow> db_error + db" where
  "update_last_seen uid now sid u t d =
     (let target = (\<lambda>v. v_session_id v = sid \<and> v_user_id v = u \<and>
                         anyone_can_view_session_viewers uid (rp_sessions d) v \<and>
                         users_can_update_their_viewer_status uid v);
          changed = filter (\<lambda>v. target v \<and> last_seen v \<noteq> t) (rp_session_viewers d);
          d1 = d\<lparr>rp_session_viewers :=
                   map (\<lambda>v. if target v then v\<lparr>last_seen := t\<rparr> else v) (rp_session_viewers d)\<rparr>
      in fire_triggers (\<lambda>OLD. update_session_max_viewers uid now (OLD\<lparr>last_seen := t\<rparr>)) changed d1)"

text \<open>
  The client's \<^verbatim>\<open>upsert({session_id, user_id, last_seen}, {onConflict:
  "session_id,user_id"})\<close>: an INSERT (with the column defaults \<^verbatim>\<open>gen_random_uuid()\<close>
  and \<^verbatim>\<open>NOW()\<close>) that turns into an UPDATE of \<^verbatim>\<open>last_seen\<close> when the pair is
  already there.  The proposed row must pass the INSERT policy in both cases and must be
  visible to the user.
\<close>

definition upsert_rp_session_viewer ::
  "uuid option \<Rightarrow> timestamptz \<Rightarrow> uuid \<Rightarrow> uuid \<Rightarrow> uuid \<Rightarrow> timestamptz \<Rightarrow> db \<Rightarrow> db_error + db" where
  "upsert_rp_session_viewer uid now new_id sid u t d =
     (let NEW = \<lparr>v_id = new_id, v_session_id = sid, v_user_id = u, joined_at = now, last_seen = t\<rparr>
      in if \<not> users_can_join_as_viewers uid NEW then Inl RowLevelSecurity
         else if \<not> anyone_can_view_session_viewers uid (rp_sessions d) NEW then Inl RowLevelSecurity
         else if (sid, u) \<in> set (map (\<lambda>v. (v_session_id v, v_user_id v)) (rp_session_viewers d))
              then update_last_seen uid now sid u t d
         else insert_rp_session_viewer uid now NEW d)"

text \<open>
  \<^verbatim>\<open>DELETE FROM rp_session_viewers WHERE session_id = sid AND user_id = u\<close>; no trigger
  is declared for DELETE.
\<close>

definition delete_rp_session_viewer :: "uuid option \<Rightarrow> uuid \<Rightarrow> uuid \<Rightarrow> db \<Rightarrow> db" where
  "delete_rp_session_viewer uid sid u d =
     d\<lparr>rp_session_viewers :=
         filter (\<lambda>v. \<not> (v_session_id v = sid \<and> v_user_id v = u \<and>
                          anyone_can_view_session_viewers uid (rp_sessions d) v \<and>
                          users_can_leave_session_view uid v))
           (rp_session_viewers d)\<rparr>"

section \<open>The session page (src/app/session/[sessionId]/page.tsx)\<close>

subsection \<open>Viewer list and viewer tracking\<close>



text \<open>
  The period in milliseconds of the timer that \<^verbatim>\<open>trackViewer\<close> starts with
  \<^verbatim>\<open>setInterval(..., 30000)\<close>.
\<close>

definition heartbeat_interval_ms :: int where
  "heartbeat_interval_ms = 30000"

text \<open>
  \<^verbatim>\<open>trackViewer\<close>: the upsert of the user's own row with the client's time, then the
  start of the timer.  An error of the upsert is logged and changes nothing; the timer is
  started all the same.  The result is the database and \<^verbatim>\<open>viewerHeartbeatRef.current\<close>:
  the period of the running timer, or \<open>None\<close> when none was started.
\<close>

definition trackViewer ::
  "uuid option \<Rightarrow> timestamptz \<Rightarrow> timestamptz \<Rightarrow> uuid \<Rightarrow> uuid \<Rightarrow> db \<Rightarrow> db \<times> int option" where
  "trackViewer me clientNow now new_id sessionId d =
     (case me of
        None \<Rightarrow> (d, None)
      | Some u \<Rightarrow>
          (case upsert_rp_session_viewer (Some u) now new_id sessionId u clientNow d of
             Inl viewerError \<Rightarrow> (d, Some heartbeat_interval_ms)
           | Inr d' \<Rightarrow> (d', Some heartbeat_interval_ms)))"

text \<open>
  What one tick of that timer does: the callback of \<^verbatim>\<open>setInterval\<close>.
\<close>

definition heartbeat ::
  "uuid option \<Rightarrow> bool \<Rightarrow> timestamptz \<Rightarrow> timestamptz \<Rightarrow> uuid \<Rightarrow> db \<Rightarrow> db" where
  "heartbeat me mounted clientNow now sessionId d =
     (case me of
        None \<Rightarrow> d
      | Some u \<Rightarrow>
          if mounted then
            (case update_last_seen (Some u) now sessionId u clientNow d of
               Inl e \<Rightarrow> d
             | Inr d' \<Rightarrow> d')
          else d)"

text \<open>
  What the effect that tracks viewers does when it runs: nothing for a session that is
  not loaded or not public, and nothing without a logged-in user; otherwise
  \<^verbatim>\<open>trackViewer\<close> is called.  (\<^verbatim>\<open>loadViewers\<close>, which it also calls, only
  reads.)
\<close>

definition viewer_tracking_effect ::
  "rp_session option \<Rightarrow> uuid option \<Rightarrow> uuid \<Rightarrow> timestamptz \<Rightarrow> timestamptz \<Rightarrow> uuid \<Rightarrow> db
     \<Rightarrow> db \<times> int option" where
  "viewer_tracking_effect session me sessionId clientNow now new_id d =
     (case session of
        None \<Rightarrow> (d, None)
      | Some s \<Rightarrow>
          if \<not> is_public s then (d, None)
          else if me \<noteq> None then trackViewer me clientNow now new_id sessionId d
          else (d, None))"



subsection \<open>Loading the page\<close>

text \<open>
  \<^verbatim>\<open>supabase.auth.getUser()\<close> gives an error, no user, or the logged-in user.
\<close>

datatype getUser_result = UserError | NoUser | AuthUser uuid







subsection \<open>Inactivity reminders\<close>

text \<open>
  \<^verbatim>\<open>checkInactivity\<close>: whether \<^verbatim>\<open>sendInactivityReminder\<close> is called.  \<open>session\<close> is
  the page's copy of the session, \<open>inactivityReminder\<close> says whether a reminder text is
  being shown, and \<open>now1\<close>, \<open>now2\<close> are the two readings of the client's clock.
\<close>

definition checkInactivity :: "rp_session \<Rightarrow> bool \<Rightarrow> timestamptz \<Rightarrow> timestamptz \<Rightarrow> bool" where
  "checkInactivity session inactivityReminder now1 now2 =
     (case last_message_at session of
        None \<Rightarrow> False
      | Some lastMessageTime \<Rightarrow>
          (let minutesSinceLastMessage = (of_int (now1 - lastMessageTime) :: rat) / (1000 * 60)
           in if minutesSinceLastMessage \<ge> 5 \<and> \<not> inactivityReminder then
                (let shouldSendReminder =
                       (case reminder_sent_at session of
                          None \<Rightarrow> True
                        | Some sent \<Rightarrow> now2 - sent > 60 * 60 * 1000)
                 in shouldSendReminder)
              else False))"

text \<open>The reminder's text, without the pause symbol it starts with (not an ASCII character).\<close>

definition reminderText :: string where
  "reminderText = ''This session has been inactive for 5 minutes. Consider pausing the session if you'll be away, or let your partner know you'll be back soon!''"

text \<open>
  \<^verbatim>\<open>sendInactivityReminder\<close>: the INSERT of the reminder and, when it raised no error,
  the UPDATE of \<^verbatim>\<open>reminder_sent_at\<close> (whose own outcome is not looked at).  The
  result is the database and whether the reminder text is now shown.
\<close>

definition sendInactivityReminder ::
  "uuid option \<Rightarrow> uuid \<Rightarrow> timestamptz \<Rightarrow> timestamptz \<Rightarrow> uuid \<Rightarrow> uuid \<Rightarrow> db \<Rightarrow> db \<times> bool" where
  "sendInactivityReminder me sessionId clientNow now new_id resp_id d =
     (case me of
        None \<Rightarrow> (d, False)
      | Some u \<Rightarrow>
          (case insert_rp_session_message (Some u) now resp_id
                  \<lparr>m_id = new_id, m_session_id = sessionId, sender_id = u, message_type = ''ooc'',
                    body = reminderText, character_id = None, m_created_at = now,
                    edited_at = None\<rparr> d of
             Inl error \<Rightarrow> (d, False)
           | Inr d1 \<Rightarrow>
               (case update_rp_sessions (Some u) now (\<lambda>s. s_id s = sessionId)
                       (\<lambda>s. s\<lparr>reminder_sent_at := Some clientNow\<rparr>) d1 of
                  Inl e \<Rightarrow> (d1, True)
                | Inr d2 \<Rightarrow> (d2, True))))"

text \<open>
  One run of the check, as the effect installs it: only with a loaded session that is
  active and a logged-in user.
\<close>

definition inactivity_check ::
  "rp_session option \<Rightarrow> uuid option \<Rightarrow> bool \<Rightarrow> uuid \<Rightarrow> timestamptz \<Rightarrow> timestamptz \<Rightarrow> timestamptz
     \<Rightarrow> timestamptz \<Rightarrow> uuid \<Rightarrow> uuid \<Rightarrow> db \<Rightarrow> db \<times> bool" where
  "inactivity_check session me inactivityReminder sessionId now1 now2 clientNow now new_id resp_id d =
     (case session of
        None \<Rightarrow> (d, inactivityReminder)
      | Some s \<Rightarrow>
          if me = None \<or> \<not> is_active s then (d, inactivityReminder)
          else if checkInactivity s inactivityReminder now1 now2 then
            (case sendInactivityReminder me sessionId clientNow now new_id resp_id d of
               (d', sent) \<Rightarrow> (d', inactivityReminder \<or> sent))
          else (d, inactivityReminder))"

section \<open>Opening a direct-message thread: \<^verbatim>\<open>openDmWith\<close>\<close>

datatype openDm_error = AuthError | NotAuthenticated | InsertError

text \<open>
  The declaration of \<^verbatim>\<open>dm_threads\<close> is not part of the sources, so what the table
  accepts on INSERT is the parameter \<open>accepts\<close>; the SELECT is taken to show the user the
  threads that link the two users.  \<open>new_id\<close> and \<open>now\<close> are the column defaults of the
  inserted row.  The result is the thread id and the table afterwards.
\<close>

definition openDmWith ::
  "getUser_result \<Rightarrow> uuid \<Rightarrow> (dm_thread \<Rightarrow> dm_thread list \<Rightarrow> bool) \<Rightarrow> uuid \<Rightarrow> timestamptz
     \<Rightarrow> dm_thread list \<Rightarrow> openDm_error + (uuid \<times> dm_thread list)" where
  "openDmWith getUser otherUserId accepts new_id now dm_threads =
     (case getUser of
        UserError \<Rightarrow> Inl AuthError
      | NoUser \<Rightarrow> Inl NotAuthenticated
      | AuthUser me \<Rightarrow>
          (let existing =
                 take 1 (order_desc t_created_at
                   (filter (\<lambda>t. (t_user_a t = me \<and> t_user_b t = otherUserId) \<or>
                                 (t_user_a t = otherUserId \<and> t_user_b t = me))
                      dm_threads))
           in case existing of
                x # _ \<Rightarrow> Inr (t_id x, dm_threads)
              | [] \<Rightarrow>
                  (let NEW = \<lparr>t_id = new_id, t_user_a = me, t_user_b = otherUserId,
                               t_created_at = now\<rparr>
                   in if accepts NEW dm_threads then Inr (t_id NEW, dm_threads @ [NEW])
                      else Inl InsertError)))"

section \<open>The sessions page (the \<^verbatim>\<open>SessionsPage\<close> component)\<close>

text \<open>
  The page's \<^verbatim>\<open>Session\<close> objects; \<^verbatim>\<open>status\<close> is typed
  \<^verbatim>\<open>"active" | "paused" | "closed"\<close> and copied from the row by a cast.  (The other
  user's name and portrait are left out.)
\<close>

record Session =
  c_id :: uuid
  c_user_a :: uuid
  c_user_b :: uuid
  c_status :: string
  c_created_at :: timestamptz
  c_last_message_at :: "timestamptz option"
  c_latest_message :: "rp_session_message option"
  c_unread_count :: nat

text \<open>The comparator handed to \<^verbatim>\<open>sessionsWithDetails.sort\<close>.\<close>

definition session_time :: "Session \<Rightarrow> timestamptz" where
  "session_time a =
     (case c_last_message_at a of
        Some t \<Rightarrow> t
      | None \<Rightarrow> (case c_latest_message a of Some m \<Rightarrow> m_created_at m | None \<Rightarrow> c_created_at a))"

definition compare_sessions :: "Session \<Rightarrow> Session \<Rightarrow> int" where
  "compare_sessions a b =
     (if (c_status a = ''active'' \<or> c_status a = ''paused'') \<and> c_status b = ''closed'' then - 1
      else if c_status a = ''closed'' \<and> (c_status b = ''active'' \<or> c_status b = ''paused'') then 1
      else if (c_status a = ''active'' \<or> c_status a = ''paused'') \<and>
              (c_status b = ''active'' \<or> c_status b = ''paused'')
           then session_time b - session_time a
      else if c_status a = ''closed'' \<and> c_status b = ''closed'' then c_created_at b - c_created_at a
      else 0)"

text \<open>\<^verbatim>\<open>Array.prototype.sort\<close> with a comparator: a stable sort.\<close>

fun insert_by :: "('a \<Rightarrow> 'a \<Rightarrow> int) \<Rightarrow> 'a \<Rightarrow> 'a list \<Rightarrow> 'a list" where
  "insert_by cmp x [] = [x]"
| "insert_by cmp x (y # ys) = (if cmp x y \<le> 0 then x # y # ys else y # insert_by cmp x ys)"

definition array_sort :: "('a \<Rightarrow> 'a \<Rightarrow> int) \<Rightarrow> 'a list \<Rightarrow> 'a list" where
  "array_sort cmp xs = foldr (insert_by cmp) xs []"

text \<open>
  \<^verbatim>\<open>SessionsPage.load\<close> for the logged-in user \<open>userId\<close>: the list handed to
  \<^verbatim>\<open>setSessions\<close>.
\<close>

definition SessionsPage_load :: "uuid \<Rightarrow> rp_session_read list \<Rightarrow> db \<Rightarrow> Session list" where
  "SessionsPage_load userId rp_session_reads d =
     (let sessionsData =
            order_desc s_created_at
              (filter (\<lambda>s. rp_sessions_visible (Some userId) s \<and>
                             (user_a s = userId \<or> user_b s = userId))
                 (rp_sessions d));
          visible_messages =
            filter (rp_session_messages_select_participants (Some userId) (rp_sessions d))
              (rp_session_messages d)
      in if sessionsData = [] then []
         else array_sort compare_sessions
                (map (\<lambda>session.
                        \<lparr>c_id = s_id session, c_user_a = user_a session, c_user_b = user_b session,
                          c_status = status session, c_created_at = s_created_at session,
                          c_last_message_at = last_message_at session,
                          c_latest_message =
                            maybeSingle (take 1 (order_desc m_created_at
                              (filter (\<lambda>m. m_session_id m = s_id session) visible_messages))),
                          c_unread_count =
                            session_unread_count userId session visible_messages rp_session_reads\<rparr>)
                   sessionsData))"

text \<open>The list shown under a filter button, and the count on the "Paused" button.\<close>

definition filteredSessions :: "string \<Rightarrow> Session list \<Rightarrow> Session list" where
  "filteredSessions filter_name sessions =
     filter (\<lambda>session. if filter_name = ''all'' then True else c_status session = filter_name)
       sessions"

definition paused_count :: "Session list \<Rightarrow> nat" where
  "paused_count sessions = length (filter (\<lambda>s. c_status s = ''paused'') sessions)"

section \<open>Statements on the database\<close>

text \<open>
  The statements modelled above, as data: any INSERT or UPDATE on \<^verbatim>\<open>rp_sessions\<close>
  and on \<^verbatim>\<open>rp_session_messages\<close> (the UPDATEs with an arbitrary WHERE and SET), and
  the statements on the viewers; the triggers of the messages and of the viewers write to
  \<^verbatim>\<open>rp_sessions\<close> too.  No policy admits a DELETE on \<^verbatim>\<open>rp_sessions\<close>.  A
  refused statement changes nothing.
\<close>

datatype statement =
  InsertSession "uuid option" rp_session
| UpdateSessions "uuid option" timestamptz "rp_session \<Rightarrow> bool" "rp_session \<Rightarrow> rp_session"
| InsertMessage "uuid option" timestamptz uuid rp_session_message
| UpdateMessages "uuid option" "rp_session_message \<Rightarrow> bool"
    "rp_session_message \<Rightarrow> rp_session_message"
| InsertViewer "uuid option" timestamptz rp_session_viewer
| UpsertViewer "uuid option" timestamptz uuid uuid uuid timestamptz
| UpdateLastSeen "uuid option" timestamptz uuid uuid timestamptz
| DeleteViewer "uuid option" uuid uuid

fun execute :: "statement \<Rightarrow> db \<Rightarrow> db_error + db" where
  "execute (InsertSession uid NEW) d = insert_rp_session uid NEW d"
| "execute (UpdateSessions uid now wh set_cols) d = update_rp_sessions uid now wh set_cols d"
| "execute (InsertMessage uid now new_id NEW) d = insert_rp_session_message uid now new_id NEW d"
| "execute (UpdateMessages uid wh set_cols) d = update_rp_session_messages uid wh set_cols d"
| "execute (InsertViewer uid now NEW) d = insert_rp_session_viewer uid now NEW d"
| "execute (UpsertViewer uid now new_id sid u t) d = upsert_rp_session_viewer uid now new_id sid u t d"
| "execute (UpdateLastSeen uid now sid u t) d = update_last_seen uid now sid u t d"
| "execute (DeleteViewer uid sid u) d = Inr (delete_rp_session_viewer uid sid u d)"

fun run :: "statement list \<Rightarrow> db \<Rightarrow> db" where
  "run [] d = d"
| "run (st # sts) d = (case execute st d of Inl e \<Rightarrow> run sts d | Inr d' \<Rightarrow> run sts d')"

definition empty_db :: db where
  "empty_db = \<lparr>rp_sessions = [], rp_session_messages = [], rp_response_times = [],
                rp_session_viewers = []\<rparr>"

section \<open>Example data\<close>

text \<open>
  A public session between users 1 and 2, and a database holding it; the theorems below
  are instantiated on them.
\<close>

definition ex_session :: rp_session where
  "ex_session =
     \<lparr>s_id = 100, user_a = 1, user_b = 2, status = ''active'', is_active = True,
      last_message_at = None, reminder_sent_at = None, s_created_at = 0, updated_at = 0,
      is_public = True, max_viewers = Some 0\<rparr>"

definition ex_db :: db where
  "ex_db = \<lparr>rp_sessions = [ex_session], rp_session_messages = [], rp_response_times = [],
             rp_session_viewers = []\<rparr>"

text \<open>
  The same session made private; and a second public session, between users 3 and 4.
\<close>

definition ex_private_session :: rp_session where
  "ex_private_session = ex_session\<lparr>is_public := False\<rparr>"

definition ex_private_db :: db where
  "ex_private_db = ex_db\<lparr>rp_sessions := [ex_private_session]\<rparr>"

definition ex_other_session :: rp_session where
  "ex_other_session = ex_session\<lparr>s_id := 101, user_a := 3, user_b := 4\<rparr>"

definition ex_two_sessions_db :: db where
  "ex_two_sessions_db = ex_db\<lparr>rp_sessions := [ex_session, ex_other_session]\<rparr>"

definition ex_viewer :: "uuid \<Rightarrow> uuid \<Rightarrow> timestamptz \<Rightarrow> timestamptz \<Rightarrow> rp_session_viewer" where
  "ex_viewer i u joined seen =
     \<lparr>v_id = i, v_session_id = 100, v_user_id = u, joined_at = joined, last_seen = seen\<rparr>"

definition ex_viewers_db :: db where
  "ex_viewers_db =
     ex_db\<lparr>rp_session_viewers :=
             [ex_viewer 501 1 50 1000000, ex_viewer 503 3 10 990000,
              ex_viewer 504 4 20 1000000, ex_viewer 505 5 30 100]\<rparr>"

definition ex_message ::
  "uuid \<Rightarrow> uuid \<Rightarrow> string \<Rightarrow> uuid option \<Rightarrow> timestamptz \<Rightarrow> timestamptz option \<Rightarrow> rp_session_message" where
  "ex_message i sender type character created edited =
     \<lparr>m_id = i, m_session_id = 100, sender_id = sender, message_type = type, body = ''...'',
      character_id = character, m_created_at = created, edited_at = edited\<rparr>"

definition ex_messages_db :: db where
  "ex_messages_db =
     ex_db\<lparr>rp_session_messages := [ex_message 200 2 ''narration'' (Some 7) 1000 (Some 1500)]\<rparr>"

definition ex_session_reads :: "rp_session_read list" where
  "ex_session_reads =
     [\<lparr>sr_session_id = 100, sr_user_id = 1, sr_last_read_at = None,
       sr_last_read_message_id = None\<rparr>]"

definition ex_thread :: dm_thread where
  "ex_thread = \<lparr>t_id = 10, t_user_a = 1, t_user_b = 2, t_created_at = 0\<rparr>"

definition ex_dm_message :: "uuid \<Rightarrow> uuid \<Rightarrow> timestamptz \<Rightarrow> dm_message" where
  "ex_dm_message i sender created =
     \<lparr>dm_id = i, dm_thread_id = 10, dm_sender_id = sender, dm_body = ''...'',
      dm_created_at = created\<rparr>"

definition ex_dm_messages :: "dm_message list" where
  "ex_dm_messages =
     [ex_dm_message 1 2 100, ex_dm_message 2 2 200, ex_dm_message 3 1 250, ex_dm_message 4 2 300]"

definition ex_dm_thread_reads :: "dm_thread_read list" where
  "ex_dm_thread_reads =
     [\<lparr>dr_thread_id = 10, dr_user_id = 1, dr_last_read_at = Some 150,
       dr_last_read_message_id = Some 1\<rparr>]"

section \<open>Facts about queries, rows and updates\<close>

text \<open>
  The definitions of the example data and of the policies and constraints, collected for
  evaluation, and the facts about lists of rows that the later sections share.
\<close>

lemmas ex_defs = ex_session_def ex_db_def ex_viewer_def ex_viewers_db_def

lemmas ex2_defs = ex_message_def ex_messages_db_def ex_session_reads_def ex_thread_def
  ex_dm_message_def ex_dm_messages_def ex_dm_thread_reads_def

lemmas ex3_defs = ex_private_session_def ex_private_db_def ex_other_session_def
  ex_two_sessions_db_def ex_message_def

lemmas policy_defs =
  rp_sessions_check_def rp_sessions_select_participants_def anyone_can_view_public_sessions_def
  rp_sessions_visible_def rp_sessions_insert_participants_def rp_sessions_update_participants_def
  rp_session_messages_check_def rp_session_messages_insert_sender_def
  rp_session_messages_select_participants_def anyone_can_view_session_viewers_def
  users_can_join_as_viewers_def users_can_update_their_viewer_status_def
  users_can_leave_session_view_def unique_active_session_def unique_active_session_violated_def
  rp_session_messages_update_sender_def

lemma list_all2_left: "list_all2 P xs ys \<Longrightarrow> x \<in> set xs \<Longrightarrow> \<exists>y \<in> set ys. P x y"
  by (induction rule: list_all2_induct) auto

lemma list_all2_right: "list_all2 P xs ys \<Longrightarrow> y \<in> set ys \<Longrightarrow> \<exists>x \<in> set xs. P x y"
  by (induction rule: list_all2_induct) auto

lemma list_all2_map_eq:
  "list_all2 (\<lambda>x y. f y = f x) xs ys \<Longrightarrow> map f ys = map f xs"
  by (induction rule: list_all2_induct) auto

lemma select_into_filter_Some:
  "select_into (filter p rows) = Some r \<Longrightarrow> r \<in> set rows \<and> p r"
proof -
  assume "select_into (filter p rows) = Some r"
  then obtain rest where "filter p rows = r # rest"
    by (auto simp: select_into_def split: list.splits)
  then have "r \<in> set (filter p rows)" by simp
  then show ?thesis by simp
qed

lemma sorted_order_desc: "sorted (map (\<lambda>r. - k r) (order_desc k xs))"
  by (simp add: order_desc_def)


lemma order_desc_head:
  assumes "order_desc k xs = x # rest"
  shows "x \<in> set xs \<and> (\<forall>y \<in> set xs. k y \<le> k x)"
proof -
  have "sorted (map (\<lambda>r. - k r) (order_desc k xs))" by (rule sorted_order_desc)
  with assms have "\<forall>y \<in> set rest. k y \<le> k x" by auto
  moreover have "set (order_desc k xs) = set xs" by (simp add: order_desc_def)
  ultimately show ?thesis using assms by auto
qed

lemma order_desc_Nil_iff: "order_desc k xs = [] \<longleftrightarrow> xs = []"
proof -
  have "length (order_desc k xs) = length xs" by (simp add: order_desc_def)
  then show ?thesis by (metis length_0_conv)
qed

lemma select_into_take1_order_desc:
  "select_into (take 1 (order_desc k xs)) = Some x \<Longrightarrow> x \<in> set xs \<and> (\<forall>y \<in> set xs. k y \<le> k x)"
proof -
  assume a: "select_into (take 1 (order_desc k xs)) = Some x"
  then obtain ys where ys: "order_desc k xs = x # ys"
    by (cases "order_desc k xs") (auto simp: select_into_def)
  have "sorted (map (\<lambda>r. - k r) (order_desc k xs))" by (simp add: order_desc_def)
  with ys have "\<forall>y \<in> set ys. k y \<le> k x" by auto
  moreover have "set (order_desc k xs) = set xs" by (simp add: order_desc_def)
  ultimately show ?thesis using ys by auto
qed



lemma update_rows_Inr_D:
  "update_rows f rs = Inr rs' \<Longrightarrow> list_all2 (\<lambda>r r'. f r = Inr r') rs rs'"
  by (induction rs arbitrary: rs') (auto split: sum.splits)

lemma update_rows_Inr_I:
  "list_all2 (\<lambda>r r'. f r = Inr r') rs rs' \<Longrightarrow> update_rows f rs = Inr rs'"
  by (induction rs rs' rule: list_all2_induct) auto

lemma update_rp_sessions_Inr:
  assumes "update_rp_sessions uid now wh f d = Inr d'"
  shows "rp_session_messages d' = rp_session_messages d"
    and "rp_response_times d' = rp_response_times d"
    and "rp_session_viewers d' = rp_session_viewers d"
    and "list_all2 (\<lambda>s s'. update_rp_session_row uid now wh f s = Inr s') (rp_sessions d) (rp_sessions d')"
  using assms
  by (auto simp: update_rp_sessions_def dest: update_rows_Inr_D split: sum.splits if_splits)

lemma update_rp_session_row_keys:
  assumes "update_rp_session_row uid now wh f s = Inr s'"
      and "s_id (f s) = s_id s" "user_a (f s) = user_a s" "user_b (f s) = user_b s"
  shows "s_id s' = s_id s \<and> user_a s' = user_a s \<and> user_b s' = user_b s"
  using assms
  by (auto simp: update_rp_session_row_def update_rp_sessions_updated_at_def Let_def split: if_splits)

lemma update_rp_session_row_same:
  assumes "update_rp_session_row uid now wh f s = Inr s'"
      and "s_id (f s) = s_id s" "user_a (f s) = user_a s" "user_b (f s) = user_b s"
          "status (f s) = status s" "is_public (f s) = is_public s"
  shows "s_id s' = s_id s \<and> user_a s' = user_a s \<and> user_b s' = user_b s \<and>
         status s' = status s \<and> is_public s' = is_public s"
  using assms
  by (auto simp: update_rp_session_row_def update_rp_sessions_updated_at_def Let_def split: if_splits)

lemma unique_active_session_kept:
  assumes "\<forall>s \<in> set old. unique_active_session (g s) = unique_active_session s"
  shows "\<not> unique_active_session_violated old (map g old)"
proof -
  have "zip old (map g old) = map (\<lambda>s. (s, g s)) old"
    by (induction old) simp_all
  with assms show ?thesis
    by (auto simp: unique_active_session_violated_def)
qed

text \<open>
  When every stored session satisfies the CHECK constraint and the SET clause leaves
  \<^verbatim>\<open>status\<close>, \<^verbatim>\<open>user_a\<close> and \<^verbatim>\<open>user_b\<close> alone, an UPDATE of \<^verbatim>\<open>rp_sessions\<close>
  cannot be refused, by a policy or by a constraint: it rewrites exactly the rows that
  match the WHERE clause and that the policies let the user read and update.
\<close>

lemma update_rp_sessions_eq:
  assumes "\<forall>s \<in> set (rp_sessions d). rp_sessions_check s"
      and "\<And>s. status (f s) = status s \<and> user_a (f s) = user_a s \<and> user_b (f s) = user_b s"
  shows "update_rp_sessions uid now wh f d =
           Inr (d\<lparr>rp_sessions :=
                  map (\<lambda>s. if wh s \<and> rp_sessions_visible uid s \<and> rp_sessions_update_participants uid s
                            then (f s)\<lparr>updated_at := now\<rparr> else s) (rp_sessions d)\<rparr>)"
proof -
  let ?g = "\<lambda>s. if wh s \<and> rp_sessions_visible uid s \<and> rp_sessions_update_participants uid s
                 then (f s)\<lparr>updated_at := now\<rparr> else s"
  have row: "update_rp_session_row uid now wh f s = Inr (?g s)" if "s \<in> set (rp_sessions d)" for s
    using that assms
    by (auto simp: update_rp_session_row_def update_rp_sessions_updated_at_def Let_def
                   rp_sessions_update_participants_def rp_sessions_check_def)
  have "list_all2 (\<lambda>s s'. update_rp_session_row uid now wh f s = Inr s')
          (rp_sessions d) (map ?g (rp_sessions d))"
    using row by (simp add: list_all2_map2 list_all2_same)
  then have "update_rows (update_rp_session_row uid now wh f) (rp_sessions d) = Inr (map ?g (rp_sessions d))"
    by (rule update_rows_Inr_I)
  moreover have "\<not> unique_active_session_violated (rp_sessions d) (map ?g (rp_sessions d))"
    by (rule unique_active_session_kept) (simp add: unique_active_session_def assms(2))
  ultimately show ?thesis by (simp add: update_rp_sessions_def)
qed

lemma update_rp_sessions_check:
  assumes "update_rp_sessions uid now wh f d = Inr d'"
      and "\<forall>s \<in> set (rp_sessions d). rp_sessions_check s"
  shows "\<forall>s \<in> set (rp_sessions d'). rp_sessions_check s"
proof
  fix s' assume "s' \<in> set (rp_sessions d')"
  from list_all2_right[OF update_rp_sessions_Inr(4)[OF assms(1)] this]
  obtain s where s: "s \<in> set (rp_sessions d)" "update_rp_session_row uid now wh f s = Inr s'"
    by blast
  from s(2) have "s' = s \<or> rp_sessions_check s'"
    by (auto simp: update_rp_session_row_def Let_def split: if_splits)
  with s(1) assms(2) show "rp_sessions_check s'" by blast
qed



section \<open>The unread counts\<close>

lemma maybeSingle_unique_Some:
  assumes "length (filter k rs) \<le> 1" and "r \<in> set rs" and "k r"
  shows "maybeSingle (filter k rs) = Some r"
proof -
  from assms(2,3) have mem: "r \<in> set (filter k rs)" by simp
  then obtain x where x: "filter k rs = [x]"
    using assms(1) by (cases "filter k rs" rule: maybeSingle.cases) auto
  with mem show ?thesis by simp
qed

lemma maybeSingle_mem: "maybeSingle rs = Some r \<Longrightarrow> r \<in> set rs"
  by (cases rs rule: maybeSingle.cases) auto

lemma count_exact_size: "count_exact p rows = size (filter_mset p (mset rows))"
  by (simp add: count_exact_def flip: mset_filter)

text \<open>
  Claim C2.  For a thread (or session) and the current user, with at most one read record
  per thread (session) and user: when the read record has a \<^verbatim>\<open>last_read_at\<close> of \<open>w\<close>,
  the unread count of the inbox page is the number of messages of that thread (session)
  sent by the other user with \<^verbatim>\<open>created_at\<close> strictly greater than \<open>w\<close>; when
  there is no read record with a non-null \<^verbatim>\<open>last_read_at\<close>, it is the number of all
  messages of the thread (session) sent by the other user.  The tables are read as bags
  of rows here, the page counts with filtered queries.
\<close>

theorem unread_count_watermark:
  assumes "length (filter (\<lambda>r. dr_thread_id r = t_id thread \<and> dr_user_id r = me) dreads) \<le> 1"
      and "length (filter (\<lambda>r. sr_session_id r = s_id session \<and> sr_user_id r = me) sreads) \<le> 1"
  shows
   "(\<forall>r w. r \<in> set dreads \<and> dr_thread_id r = t_id thread \<and> dr_user_id r = me
          \<and> dr_last_read_at r = Some w \<longrightarrow>
        dm_unread_count me thread dmsgs dreads =
          size {#m \<in># mset dmsgs. dm_thread_id m = t_id thread
                  \<and> dm_sender_id m = (if t_user_a thread = me then t_user_b thread else t_user_a thread)
                  \<and> dm_created_at m > w#})
    \<and> ((\<forall>r \<in> set dreads. dr_thread_id r = t_id thread \<and> dr_user_id r = me
            \<longrightarrow> dr_last_read_at r = None) \<longrightarrow>
        dm_unread_count me thread dmsgs dreads =
          size {#m \<in># mset dmsgs. dm_thread_id m = t_id thread
                  \<and> dm_sender_id m = (if t_user_a thread = me then t_user_b thread else t_user_a thread)#})
    \<and> (\<forall>r w. r \<in> set sreads \<and> sr_session_id r = s_id session \<and> sr_user_id r = me
          \<and> sr_last_read_at r = Some w \<longrightarrow>
        session_unread_count me session smsgs sreads =
          size {#m \<in># mset smsgs. m_session_id m = s_id session
                  \<and> sender_id m = (if user_a session = me then user_b session else user_a session)
                  \<and> m_created_at m > w#})
    \<and> ((\<forall>r \<in> set sreads. sr_session_id r = s_id session \<and> sr_user_id r = me
            \<longrightarrow> sr_last_read_at r = None) \<longrightarrow>
        session_unread_count me session smsgs sreads =
          size {#m \<in># mset smsgs. m_session_id m = s_id session
                  \<and> sender_id m = (if user_a session = me then user_b session else user_a session)#})"
proof (intro conjI allI impI)
  fix r w
  assume "r \<in> set dreads \<and> dr_thread_id r = t_id thread \<and> dr_user_id r = me
          \<and> dr_last_read_at r = Some w"
  then have "maybeSingle (filter (\<lambda>r. dr_thread_id r = t_id thread \<and> dr_user_id r = me) dreads) = Some r"
    and "dr_last_read_at r = Some w"
    using maybeSingle_unique_Some[OF assms(1), of r] by auto
  then show "dm_unread_count me thread dmsgs dreads =
          size {#m \<in># mset dmsgs. dm_thread_id m = t_id thread
                  \<and> dm_sender_id m = (if t_user_a thread = me then t_user_b thread else t_user_a thread)
                  \<and> dm_created_at m > w#}"
    by (simp add: dm_unread_count_def count_exact_size)
next
  assume a: "\<forall>r \<in> set dreads. dr_thread_id r = t_id thread \<and> dr_user_id r = me
            \<longrightarrow> dr_last_read_at r = None"
  show "dm_unread_count me thread dmsgs dreads =
          size {#m \<in># mset dmsgs. dm_thread_id m = t_id thread
                  \<and> dm_sender_id m = (if t_user_a thread = me then t_user_b thread else t_user_a thread)#}"
  proof (cases "maybeSingle (filter (\<lambda>r. dr_thread_id r = t_id thread \<and> dr_user_id r = me) dreads)")
    case None
    then show ?thesis by (simp add: dm_unread_count_def count_exact_size)
  next
    case (Some rd)
    from maybeSingle_mem[OF Some] a have "dr_last_read_at rd = None" by auto
    with Some show ?thesis by (simp add: dm_unread_count_def count_exact_size)
  qed
next
  fix r w
  assume "r \<in> set sreads \<and> sr_session_id r = s_id session \<and> sr_user_id r = me
          \<and> sr_last_read_at r = Some w"
  then have "maybeSingle (filter (\<lambda>r. sr_session_id r = s_id session \<and> sr_user_id r = me) sreads) = Some r"
    and "sr_last_read_at r = Some w"
    using maybeSingle_unique_Some[OF assms(2), of r] by auto
  then show "session_unread_count me session smsgs sreads =
          size {#m \<in># mset smsgs. m_session_id m = s_id session
                  \<and> sender_id m = (if user_a session = me then user_b session else user_a session)
                  \<and> m_created_at m > w#}"
    by (simp add: session_unread_count_def count_exact_size)
next
  assume a: "\<forall>r \<in> set sreads. sr_session_id r = s_id session \<and> sr_user_id r = me
            \<longrightarrow> sr_last_read_at r = None"
  show "session_unread_count me session smsgs sreads =
          size {#m \<in># mset smsgs. m_session_id m = s_id session
                  \<and> sender_id m = (if user_a session = me then user_b session else user_a session)#}"
  proof (cases "maybeSingle (filter (\<lambda>r. sr_session_id r = s_id session \<and> sr_user_id r = me) sreads)")
    case None
    then show ?thesis by (simp add: session_unread_count_def count_exact_size)
  next
    case (Some rd)
    from maybeSingle_mem[OF Some] a have "sr_last_read_at rd = None" by auto
    with Some show ?thesis by (simp add: session_unread_count_def count_exact_size)
  qed
qed

theorem unread_count_watermark_witness:
  "length (filter (\<lambda>r. dr_thread_id r = t_id ex_thread \<and> dr_user_id r = 1) ex_dm_thread_reads) \<le> 1 \<and>
   length (filter (\<lambda>r. sr_session_id r = s_id ex_session \<and> sr_user_id r = 1) ex_session_reads) \<le> 1 \<and>
   dm_unread_count 1 ex_thread ex_dm_messages ex_dm_thread_reads = 2 \<and>
   session_unread_count 1 ex_session (rp_session_messages ex_messages_db) ex_session_reads = 1"
proof -
  have h1: "length (filter (\<lambda>r. dr_thread_id r = t_id ex_thread \<and> dr_user_id r = 1) ex_dm_thread_reads) \<le> 1"
    by (simp add: ex_defs ex2_defs)
  have h2: "length (filter (\<lambda>r. sr_session_id r = s_id ex_session \<and> sr_user_id r = 1) ex_session_reads) \<le> 1"
    by (simp add: ex_defs ex2_defs)
  note inst = unread_count_watermark[OF h1 h2, of ex_dm_messages "rp_session_messages ex_messages_db"]
  from inst have "\<forall>r w. r \<in> set ex_dm_thread_reads \<and> dr_thread_id r = t_id ex_thread \<and> dr_user_id r = 1
          \<and> dr_last_read_at r = Some w \<longrightarrow>
        dm_unread_count 1 ex_thread ex_dm_messages ex_dm_thread_reads =
          size {#m \<in># mset ex_dm_messages. dm_thread_id m = t_id ex_thread
                  \<and> dm_sender_id m = (if t_user_a ex_thread = 1 then t_user_b ex_thread else t_user_a ex_thread)
                  \<and> dm_created_at m > w#}"
    by (rule conjunct1)
  then have a: "dm_unread_count 1 ex_thread ex_dm_messages ex_dm_thread_reads = 2"
    by (simp add: ex_defs ex2_defs)
  from inst have "(\<forall>r \<in> set ex_session_reads. sr_session_id r = s_id ex_session \<and> sr_user_id r = 1
            \<longrightarrow> sr_last_read_at r = None) \<longrightarrow>
        session_unread_count 1 ex_session (rp_session_messages ex_messages_db) ex_session_reads =
          size {#m \<in># mset (rp_session_messages ex_messages_db). m_session_id m = s_id ex_session
                  \<and> sender_id m = (if user_a ex_session = 1 then user_b ex_session else user_a ex_session)#}"
    by blast
  then have b: "session_unread_count 1 ex_session (rp_session_messages ex_messages_db) ex_session_reads = 1"
    by (simp add: ex_defs ex2_defs)
  from h1 h2 a b show ?thesis by blast
qed

section \<open>The trigger on message inserts\<close>

lemma epoch_seconds_nearest: "\<bar>1000 * epoch_seconds ms - ms\<bar> \<le> 500"
  unfolding epoch_seconds_def by (auto simp: abs_if)

lemma calculate_response_time_steps:
  assumes "calculate_response_time uid now new_id NEW d = Inr d'"
  obtains d1 where
    "rp_sessions d1 = rp_sessions d" "rp_session_messages d1 = rp_session_messages d"
    "rp_session_viewers d1 = rp_session_viewers d"
    "rp_response_times d1 = rp_response_times d \<or>
       ((\<exists>s \<in> set (rp_sessions d). s_id s = m_session_id NEW \<and> is_active s) \<and>
        (\<exists>prev. prev_message_query uid NEW d = Some prev \<and>
           rp_response_times d1 = rp_response_times d @
             [\<lparr>rt_id = new_id, rt_user_id = sender_id NEW, rt_session_id = m_session_id NEW,
               response_time_seconds = epoch_seconds (m_created_at NEW - m_created_at prev),
               rt_created_at = now\<rparr>]))"
    "update_rp_sessions uid now (\<lambda>s. s_id s = m_session_id NEW)
       (\<lambda>s. s\<lparr>last_message_at := Some (m_created_at NEW)\<rparr>) d1 = Inr d'"
proof -
  let ?act = "map_option is_active
     (select_into (filter (\<lambda>s. rp_sessions_visible uid s \<and> s_id s = m_session_id NEW) (rp_sessions d)))"
  have act: "\<exists>s \<in> set (rp_sessions d). s_id s = m_session_id NEW \<and> is_active s"
    if "?act = Some True"
    using that by (auto dest: select_into_filter_Some)
  show thesis
  proof (cases "?act = Some True \<and> row_is_not_null (prev_message_query uid NEW d)")
    case False
    then have "update_rp_sessions uid now (\<lambda>s. s_id s = m_session_id NEW)
       (\<lambda>s. s\<lparr>last_message_at := Some (m_created_at NEW)\<rparr>) d = Inr d'"
      using assms
      by (auto simp: calculate_response_time_def Let_def row_is_not_null_def
               split: option.splits if_splits)
    then show ?thesis using that[of d] by simp
  next
    case True
    then obtain prev where prev: "prev_message_query uid NEW d = Some prev"
      by (auto simp: row_is_not_null_def split: option.splits)
    define d1 where "d1 = d\<lparr>rp_response_times := rp_response_times d @
             [\<lparr>rt_id = new_id, rt_user_id = sender_id NEW, rt_session_id = m_session_id NEW,
               response_time_seconds = epoch_seconds (m_created_at NEW - m_created_at prev),
               rt_created_at = now\<rparr>]\<rparr>"
    have "update_rp_sessions uid now (\<lambda>s. s_id s = m_session_id NEW)
       (\<lambda>s. s\<lparr>last_message_at := Some (m_created_at NEW)\<rparr>) d1 = Inr d'"
      using assms True prev
      by (auto simp: calculate_response_time_def Let_def to_integer_def d1_def
               split: if_splits)
    moreover have "rp_sessions d1 = rp_sessions d" "rp_session_messages d1 = rp_session_messages d"
      "rp_session_viewers d1 = rp_session_viewers d"
      by (simp_all add: d1_def)
    moreover have "(\<exists>s \<in> set (rp_sessions d). s_id s = m_session_id NEW \<and> is_active s) \<and>
        (\<exists>prev. prev_message_query uid NEW d = Some prev \<and>
           rp_response_times d1 = rp_response_times d @
             [\<lparr>rt_id = new_id, rt_user_id = sender_id NEW, rt_session_id = m_session_id NEW,
               response_time_seconds = epoch_seconds (m_created_at NEW - m_created_at prev),
               rt_created_at = now\<rparr>])"
      using act True prev by (simp add: d1_def)
    ultimately show ?thesis using that[of d1] by blast
  qed
qed

lemma calculate_response_time_tables:
  assumes "calculate_response_time uid now new_id NEW d = Inr d'"
  shows "rp_session_messages d' = rp_session_messages d"
    and "rp_session_viewers d' = rp_session_viewers d"
    and "list_all2 (\<lambda>s s'. update_rp_session_row uid now (\<lambda>s. s_id s = m_session_id NEW)
             (\<lambda>s. s\<lparr>last_message_at := Some (m_created_at NEW)\<rparr>) s = Inr s')
           (rp_sessions d) (rp_sessions d')"
proof -
  from assms obtain d1 where d1: "rp_sessions d1 = rp_sessions d"
    "rp_session_messages d1 = rp_session_messages d" "rp_session_viewers d1 = rp_session_viewers d"
    and u: "update_rp_sessions uid now (\<lambda>s. s_id s = m_session_id NEW)
       (\<lambda>s. s\<lparr>last_message_at := Some (m_created_at NEW)\<rparr>) d1 = Inr d'"
    by (rule calculate_response_time_steps)
  from update_rp_sessions_Inr[OF u] d1
  show "rp_session_messages d' = rp_session_messages d"
    and "rp_session_viewers d' = rp_session_viewers d"
    and "list_all2 (\<lambda>s s'. update_rp_session_row uid now (\<lambda>s. s_id s = m_session_id NEW)
             (\<lambda>s. s\<lparr>last_message_at := Some (m_created_at NEW)\<rparr>) s = Inr s')
           (rp_sessions d) (rp_sessions d')"
    by simp_all
qed

lemma calculate_response_time_recorded:
  assumes "calculate_response_time uid now new_id NEW d = Inr d'"
  shows "rp_response_times d' = rp_response_times d \<or>
         ((\<exists>s \<in> set (rp_sessions d). s_id s = m_session_id NEW \<and> is_active s) \<and>
          (\<exists>prev. prev_message_query uid NEW d = Some prev \<and>
             rp_response_times d' = rp_response_times d @
               [\<lparr>rt_id = new_id, rt_user_id = sender_id NEW, rt_session_id = m_session_id NEW,
                 response_time_seconds = epoch_seconds (m_created_at NEW - m_created_at prev),
                 rt_created_at = now\<rparr>]))"
proof -
  from assms obtain d1 where
    r: "rp_response_times d1 = rp_response_times d \<or>
       ((\<exists>s \<in> set (rp_sessions d). s_id s = m_session_id NEW \<and> is_active s) \<and>
        (\<exists>prev. prev_message_query uid NEW d = Some prev \<and>
           rp_response_times d1 = rp_response_times d @
             [\<lparr>rt_id = new_id, rt_user_id = sender_id NEW, rt_session_id = m_session_id NEW,
               response_time_seconds = epoch_seconds (m_created_at NEW - m_created_at prev),
               rt_created_at = now\<rparr>]))"
    and u: "update_rp_sessions uid now (\<lambda>s. s_id s = m_session_id NEW)
       (\<lambda>s. s\<lparr>last_message_at := Some (m_created_at NEW)\<rparr>) d1 = Inr d'"
    by (rule calculate_response_time_steps)
  from update_rp_sessions_Inr(2)[OF u] r show ?thesis by simp
qed

lemma prev_message_query_Some:
  assumes "prev_message_query uid NEW d = Some prev"
  shows "prev \<in> set (rp_session_messages d) \<and> m_session_id prev = m_session_id NEW \<and>
         sender_id prev \<noteq> sender_id NEW \<and> m_created_at prev < m_created_at NEW \<and>
         (\<forall>m \<in> set (rp_session_messages d).
            rp_session_messages_select_participants uid (rp_sessions d) m \<and>
            m_session_id m = m_session_id NEW \<and> sender_id m \<noteq> sender_id NEW \<and>
            m_created_at m < m_created_at NEW \<longrightarrow> m_created_at m \<le> m_created_at prev)"
  using select_into_take1_order_desc[OF assms[unfolded prev_message_query_def]]
  by auto

text \<open>
  Claim C8.  Whenever an INSERT into \<^verbatim>\<open>rp_session_messages\<close> goes through (session
  ids being unique), the session of the new message exists afterwards and has
  \<^verbatim>\<open>last_message_at\<close> equal to the new message's \<^verbatim>\<open>created_at\<close>.  The table
  \<^verbatim>\<open>rp_response_times\<close> either stays as it was, or the session's \<^verbatim>\<open>is_active\<close>
  flag is true and an earlier message of the session from a different sender exists, and
  exactly one row is appended, for the sender and the session of the new message, whose
  \<^verbatim>\<open>response_time_seconds\<close> is the difference between the \<^verbatim>\<open>created_at\<close> of the
  new message and of the latest such earlier message, in whole seconds (the nearest whole
  number of seconds).
\<close>

theorem calculate_response_time_on_insert:
  assumes "insert_rp_session_message uid now new_id NEW d = Inr d'"
      and "distinct (map s_id (rp_sessions d))"
  shows "(\<exists>s \<in> set (rp_sessions d'). s_id s = m_session_id NEW) \<and>
         (\<forall>s \<in> set (rp_sessions d'). s_id s = m_session_id NEW \<longrightarrow>
            last_message_at s = Some (m_created_at NEW)) \<and>
         (rp_response_times d' = rp_response_times d \<or>
          (\<exists>s \<in> set (rp_sessions d). s_id s = m_session_id NEW \<and> is_active s = True) \<and>
          (\<exists>prev \<in> set (rp_session_messages d).
             m_session_id prev = m_session_id NEW \<and> sender_id prev \<noteq> sender_id NEW \<and>
             m_created_at prev < m_created_at NEW \<and>
             (\<forall>m \<in> set (rp_session_messages d).
                 m_session_id m = m_session_id NEW \<and> sender_id m \<noteq> sender_id NEW \<and>
                 m_created_at m < m_created_at NEW \<longrightarrow> m_created_at m \<le> m_created_at prev) \<and>
             (\<exists>seconds. \<bar>1000 * seconds - (m_created_at NEW - m_created_at prev)\<bar> \<le> 500 \<and>
                rp_response_times d' = rp_response_times d @
                  [\<lparr>rt_id = new_id, rt_user_id = sender_id NEW, rt_session_id = m_session_id NEW,
                    response_time_seconds = seconds, rt_created_at = now\<rparr>])))"
proof -
  define d0 where "d0 = d\<lparr>rp_session_messages := rp_session_messages d @ [NEW]\<rparr>"
  from assms(1) have pol: "rp_session_messages_insert_sender uid (rp_sessions d) NEW"
    and calc: "calculate_response_time uid now new_id NEW d0 = Inr d'"
    by (auto simp: insert_rp_session_message_def d0_def split: if_splits)
  from pol obtain s0 where s0: "s0 \<in> set (rp_sessions d)" "s_id s0 = m_session_id NEW"
    "rp_sessions_visible uid s0" "rp_sessions_update_participants uid s0"
    by (auto simp: rp_session_messages_insert_sender_def rp_sessions_update_participants_def)
  let ?upd = "update_rp_session_row uid now (\<lambda>s. s_id s = m_session_id NEW)
                (\<lambda>s. s\<lparr>last_message_at := Some (m_created_at NEW)\<rparr>)"
  have la2: "list_all2 (\<lambda>s s'. ?upd s = Inr s') (rp_sessions d) (rp_sessions d')"
    using calculate_response_time_tables(3)[OF calc] by (simp add: d0_def)
  have only_s0: "s = s0" if "s \<in> set (rp_sessions d)" "s_id s = m_session_id NEW" for s
    using that s0(1,2) assms(2) by (metis distinct_map inj_onD)
  have upd_s0: "last_message_at s' = Some (m_created_at NEW) \<and> s_id s' = m_session_id NEW"
    if "?upd s0 = Inr s'" for s'
    using that s0
    by (auto simp: update_rp_session_row_def update_rp_sessions_updated_at_def Let_def
             split: if_splits)
  have ex: "\<exists>s \<in> set (rp_sessions d'). s_id s = m_session_id NEW"
  proof -
    from list_all2_left[OF la2 s0(1)] obtain s' where "s' \<in> set (rp_sessions d')" "?upd s0 = Inr s'"
      by auto
    with upd_s0 show ?thesis by auto
  qed
  have all: "\<forall>s' \<in> set (rp_sessions d'). s_id s' = m_session_id NEW \<longrightarrow>
               last_message_at s' = Some (m_created_at NEW)"
  proof (intro ballI impI)
    fix s' assume s': "s' \<in> set (rp_sessions d')" "s_id s' = m_session_id NEW"
    with list_all2_right[OF la2] obtain s where s: "s \<in> set (rp_sessions d)" "?upd s = Inr s'"
      by blast
    from update_rp_session_row_keys[OF s(2)] s'(2) have "s_id s = m_session_id NEW" by simp
    with only_s0 s(1) have "s = s0" by simp
    with s(2) upd_s0 show "last_message_at s' = Some (m_created_at NEW)" by simp
  qed
  have rt: "rp_response_times d' = rp_response_times d \<or>
          (\<exists>s \<in> set (rp_sessions d). s_id s = m_session_id NEW \<and> is_active s = True) \<and>
          (\<exists>prev \<in> set (rp_session_messages d).
             m_session_id prev = m_session_id NEW \<and> sender_id prev \<noteq> sender_id NEW \<and>
             m_created_at prev < m_created_at NEW \<and>
             (\<forall>m \<in> set (rp_session_messages d).
                 m_session_id m = m_session_id NEW \<and> sender_id m \<noteq> sender_id NEW \<and>
                 m_created_at m < m_created_at NEW \<longrightarrow> m_created_at m \<le> m_created_at prev) \<and>
             (\<exists>seconds. \<bar>1000 * seconds - (m_created_at NEW - m_created_at prev)\<bar> \<le> 500 \<and>
                rp_response_times d' = rp_response_times d @
                  [\<lparr>rt_id = new_id, rt_user_id = sender_id NEW, rt_session_id = m_session_id NEW,
                    response_time_seconds = seconds, rt_created_at = now\<rparr>]))"
  proof (cases "rp_response_times d' = rp_response_times d")
    case True
    then show ?thesis by simp
  next
    case False
    with calculate_response_time_recorded[OF calc]
    obtain prev where act: "\<exists>s \<in> set (rp_sessions d). s_id s = m_session_id NEW \<and> is_active s"
      and prev: "prev_message_query uid NEW d0 = Some prev"
      and app: "rp_response_times d' = rp_response_times d @
               [\<lparr>rt_id = new_id, rt_user_id = sender_id NEW, rt_session_id = m_session_id NEW,
                 response_time_seconds = epoch_seconds (m_created_at NEW - m_created_at prev),
                 rt_created_at = now\<rparr>]"
      by (auto simp: d0_def)
    from prev_message_query_Some[OF prev]
    have p: "prev \<in> set (rp_session_messages d0)" "m_session_id prev = m_session_id NEW"
      "sender_id prev \<noteq> sender_id NEW" "m_created_at prev < m_created_at NEW"
      and latest0: "\<forall>m \<in> set (rp_session_messages d0).
            rp_session_messages_select_participants uid (rp_sessions d0) m \<and>
            m_session_id m = m_session_id NEW \<and> sender_id m \<noteq> sender_id NEW \<and>
            m_created_at m < m_created_at NEW \<longrightarrow> m_created_at m \<le> m_created_at prev"
      by auto
    from p(1,3) have pin: "prev \<in> set (rp_session_messages d)" by (auto simp: d0_def)
    have latest: "\<forall>m \<in> set (rp_session_messages d).
                 m_session_id m = m_session_id NEW \<and> sender_id m \<noteq> sender_id NEW \<and>
                 m_created_at m < m_created_at NEW \<longrightarrow> m_created_at m \<le> m_created_at prev"
    proof (intro ballI impI)
      fix m assume m: "m \<in> set (rp_session_messages d)"
        and c: "m_session_id m = m_session_id NEW \<and> sender_id m \<noteq> sender_id NEW \<and>
                 m_created_at m < m_created_at NEW"
      from s0 c pol have "rp_session_messages_select_participants uid (rp_sessions d0) m"
        by (auto simp: rp_session_messages_select_participants_def d0_def
                       rp_sessions_update_participants_def rp_session_messages_insert_sender_def)
      moreover from m have "m \<in> set (rp_session_messages d0)" by (simp add: d0_def)
      ultimately show "m_created_at m \<le> m_created_at prev" using latest0 c by blast
    qed
    have "\<bar>1000 * epoch_seconds (m_created_at NEW - m_created_at prev)
             - (m_created_at NEW - m_created_at prev)\<bar> \<le> 500"
      by (rule epoch_seconds_nearest)
    with pin p(2,3,4) latest act app show ?thesis by blast
  qed
  from ex all rt show ?thesis by blast
qed

theorem calculate_response_time_on_insert_witness:
  "insert_rp_session_message (Some 1) 5000 300 (ex_message 201 1 ''ooc'' None 4600 None) ex_messages_db =
     Inr (ex_db\<lparr>rp_session_messages :=
                 [ex_message 200 2 ''narration'' (Some 7) 1000 (Some 1500),
                  ex_message 201 1 ''ooc'' None 4600 None],
               rp_response_times :=
                 [\<lparr>rt_id = 300, rt_user_id = 1, rt_session_id = 100, response_time_seconds = 4,
                   rt_created_at = 5000\<rparr>],
               rp_sessions := [ex_session\<lparr>last_message_at := Some 4600, updated_at := 5000\<rparr>]\<rparr>) \<and>
   distinct (map s_id (rp_sessions ex_messages_db)) \<and>
   last_message_at (ex_session\<lparr>last_message_at := Some 4600, updated_at := 5000\<rparr>) = Some 4600"
proof -
  have e: "insert_rp_session_message (Some 1) 5000 300 (ex_message 201 1 ''ooc'' None 4600 None) ex_messages_db =
     Inr (ex_db\<lparr>rp_session_messages :=
                 [ex_message 200 2 ''narration'' (Some 7) 1000 (Some 1500),
                  ex_message 201 1 ''ooc'' None 4600 None],
               rp_response_times :=
                 [\<lparr>rt_id = 300, rt_user_id = 1, rt_session_id = 100, response_time_seconds = 4,
                   rt_created_at = 5000\<rparr>],
               rp_sessions := [ex_session\<lparr>last_message_at := Some 4600, updated_at := 5000\<rparr>]\<rparr>)"
    by (simp add: insert_rp_session_message_def calculate_response_time_def prev_message_query_def
          row_is_not_null_def epoch_seconds_def to_integer_def order_desc_def
          update_rp_sessions_def update_rp_session_row_def update_rp_sessions_updated_at_def
          select_into_def Let_def policy_defs ex_defs ex2_defs)
  have dd: "distinct (map s_id (rp_sessions ex_messages_db))"
    by (simp add: ex_defs ex2_defs)
  from calculate_response_time_on_insert[OF e dd] e dd show ?thesis
    by (simp add: ex_defs ex2_defs)
qed

section \<open>Who writes the messages of a session\<close>

lemma insert_rp_session_message_step:
  assumes "insert_rp_session_message uid now new_id NEW d = Inr d'"
  shows "rp_session_messages_insert_sender uid (rp_sessions d) NEW"
    and "rp_session_messages_check NEW"
    and "rp_session_messages d' = rp_session_messages d @ [NEW]"
    and "rp_session_viewers d' = rp_session_viewers d"
    and "list_all2 (\<lambda>s s'. s_id s' = s_id s \<and> user_a s' = user_a s \<and> user_b s' = user_b s \<and>
                            status s' = status s \<and> is_public s' = is_public s)
           (rp_sessions d) (rp_sessions d')"
proof -
  let ?d0 = "d\<lparr>rp_session_messages := rp_session_messages d @ [NEW]\<rparr>"
  from assms show pol: "rp_session_messages_insert_sender uid (rp_sessions d) NEW"
    and "rp_session_messages_check NEW"
    by (auto simp: insert_rp_session_message_def split: if_splits)
  from assms have calc: "calculate_response_time uid now new_id NEW ?d0 = Inr d'"
    by (auto simp: insert_rp_session_message_def split: if_splits)
  from calculate_response_time_tables[OF calc]
  show "rp_session_messages d' = rp_session_messages d @ [NEW]"
    and "rp_session_viewers d' = rp_session_viewers d"
    by simp_all
  have "list_all2 (\<lambda>s s'. update_rp_session_row uid now (\<lambda>s. s_id s = m_session_id NEW)
             (\<lambda>s. s\<lparr>last_message_at := Some (m_created_at NEW)\<rparr>) s = Inr s')
           (rp_sessions d) (rp_sessions d')"
    using calculate_response_time_tables(3)[OF calc] by simp
  then show "list_all2 (\<lambda>s s'. s_id s' = s_id s \<and> user_a s' = user_a s \<and> user_b s' = user_b s \<and>
                            status s' = status s \<and> is_public s' = is_public s)
           (rp_sessions d) (rp_sessions d')"
  proof (rule list_all2_mono)
    fix s s'
    assume "update_rp_session_row uid now (\<lambda>s. s_id s = m_session_id NEW)
             (\<lambda>s. s\<lparr>last_message_at := Some (m_created_at NEW)\<rparr>) s = Inr s'"
    then show "s_id s' = s_id s \<and> user_a s' = user_a s \<and> user_b s' = user_b s \<and>
                            status s' = status s \<and> is_public s' = is_public s"
      by (rule update_rp_session_row_same) simp_all
  qed
qed

lemma insert_rp_session_message_invariant:
  assumes "insert_rp_session_message uid now new_id NEW d = Inr d'"
      and "\<forall>m \<in> set (rp_session_messages d). rp_session_messages_check m \<and>
             (\<exists>s \<in> set (rp_sessions d). s_id s = m_session_id m \<and>
                (sender_id m = user_a s \<or> sender_id m = user_b s))"
  shows "\<forall>m \<in> set (rp_session_messages d'). rp_session_messages_check m \<and>
             (\<exists>s \<in> set (rp_sessions d'). s_id s = m_session_id m \<and>
                (sender_id m = user_a s \<or> sender_id m = user_b s))"
proof
  fix m assume m: "m \<in> set (rp_session_messages d')"
  note step = insert_rp_session_message_step[OF assms(1)]
  have old: "rp_session_messages_check m \<and>
             (\<exists>s \<in> set (rp_sessions d). s_id s = m_session_id m \<and>
                (sender_id m = user_a s \<or> sender_id m = user_b s))"
  proof (cases "m = NEW")
    case True
    with step(1,2) show ?thesis
      by (auto simp: rp_session_messages_insert_sender_def)
  next
    case False
    with m step(3) have "m \<in> set (rp_session_messages d)" by simp
    with assms(2) show ?thesis by blast
  qed
  then obtain s where s: "s \<in> set (rp_sessions d)" "s_id s = m_session_id m"
    "sender_id m = user_a s \<or> sender_id m = user_b s" by blast
  from list_all2_left[OF step(5) s(1)] obtain s' where "s' \<in> set (rp_sessions d')"
    "s_id s' = s_id s" "user_a s' = user_a s" "user_b s' = user_b s" by blast
  with s old show "rp_session_messages_check m \<and>
             (\<exists>s \<in> set (rp_sessions d'). s_id s = m_session_id m \<and>
                (sender_id m = user_a s \<or> sender_id m = user_b s))"
    by auto
qed

text \<open>
  An INSERT into \<^verbatim>\<open>rp_session_messages\<close> goes through only when the authenticated
  user is the \<^verbatim>\<open>sender_id\<close> of the message and is \<^verbatim>\<open>user_a\<close> or \<^verbatim>\<open>user_b\<close> of
  its session, and only with a \<^verbatim>\<open>message_type\<close> of 'ooc' or 'narration'.  As long
  as nothing but such INSERTs is run, every stored message was written by one of the two
  parties of its session.
\<close>

lemma insert_rp_session_message_permitted:
  assumes "insert_rp_session_message uid now new_id NEW d = Inr d'"
  shows "uid = Some (sender_id NEW) \<and>
         (\<exists>s \<in> set (rp_sessions d). s_id s = m_session_id NEW \<and>
            (sender_id NEW = user_a s \<or> sender_id NEW = user_b s)) \<and>
         (message_type NEW = ''ooc'' \<or> message_type NEW = ''narration'')"
  using insert_rp_session_message_step(1,2)[OF assms]
  by (auto simp: rp_session_messages_insert_sender_def rp_session_messages_check_def)

lemma inserted_messages_by_participants:
  assumes "\<forall>m \<in> set (rp_session_messages d). rp_session_messages_check m \<and>
             (\<exists>s \<in> set (rp_sessions d). s_id s = m_session_id m \<and>
                (sender_id m = user_a s \<or> sender_id m = user_b s))"
  shows "\<forall>m \<in> set (rp_session_messages
                      (run (map (\<lambda>(uid, now, new_id, NEW). InsertMessage uid now new_id NEW) ops) d)).
           rp_session_messages_check m \<and>
           (\<exists>s \<in> set (rp_sessions
                        (run (map (\<lambda>(uid, now, new_id, NEW). InsertMessage uid now new_id NEW) ops) d)).
              s_id s = m_session_id m \<and> (sender_id m = user_a s \<or> sender_id m = user_b s))"
  using assms
proof (induction ops arbitrary: d)
  case Nil
  then show ?case by simp
next
  case (Cons op ops)
  obtain uid now new_id NEW where op: "op = (uid, now, new_id, NEW)"
    by (cases op) auto
  show ?case
  proof (cases "insert_rp_session_message uid now new_id NEW d")
    case (Inl e)
    with Cons.IH[OF Cons.prems] op show ?thesis by simp
  next
    case (Inr d')
    from Cons.IH[OF insert_rp_session_message_invariant[OF Inr Cons.prems]] Inr op
    show ?thesis by simp
  qed
qed

text \<open>
  The \<^verbatim>\<open>message_type\<close> of every stored message stays 'ooc' or 'narration' under all
  the statements modelled, the UPDATEs included: the CHECK constraint is applied to every
  row an INSERT or UPDATE writes.
\<close>

lemma update_rp_session_messages_Inr:
  assumes "update_rp_session_messages uid wh f d = Inr d'"
  shows "rp_sessions d' = rp_sessions d"
    and "rp_response_times d' = rp_response_times d"
    and "rp_session_viewers d' = rp_session_viewers d"
    and "list_all2 (\<lambda>m m'. update_rp_session_message_row uid (rp_sessions d) wh f m = Inr m')
           (rp_session_messages d) (rp_session_messages d')"
  using assms
  by (auto simp: update_rp_session_messages_def dest: update_rows_Inr_D split: sum.splits)

lemma update_rp_session_messages_types:
  assumes "update_rp_session_messages uid wh f d = Inr d'"
      and "\<forall>m \<in> set (rp_session_messages d). rp_session_messages_check m"
  shows "\<forall>m \<in> set (rp_session_messages d'). rp_session_messages_check m"
proof
  fix m' assume "m' \<in> set (rp_session_messages d')"
  from list_all2_right[OF update_rp_session_messages_Inr(4)[OF assms(1)] this]
  obtain m where m: "m \<in> set (rp_session_messages d)"
    "update_rp_session_message_row uid (rp_sessions d) wh f m = Inr m'"
    by blast
  from m(2) have "m' = m \<or> rp_session_messages_check m'"
    by (auto simp: update_rp_session_message_row_def Let_def split: if_splits)
  with m(1) assms(2) show "rp_session_messages_check m'" by blast
qed

lemma update_session_max_viewers_messages:
  assumes "update_session_max_viewers uid now ROW d = Inr d'"
  shows "rp_session_messages d' = rp_session_messages d"
proof (cases "d' = d")
  case True
  then show ?thesis by simp
next
  case False
  with assms obtain n where
    "update_rp_sessions uid now (\<lambda>s. s_id s = v_session_id ROW) (\<lambda>s. s\<lparr>max_viewers := Some n\<rparr>) d = Inr d'"
    by (auto simp: update_session_max_viewers_def Let_def split: option.splits if_splits)
  then show ?thesis by (rule update_rp_sessions_Inr(1))
qed

lemma fire_triggers_messages:
  assumes "fire_triggers (\<lambda>OLD. update_session_max_viewers uid now (h OLD)) rs d = Inr d'"
  shows "rp_session_messages d' = rp_session_messages d"
  using assms
proof (induction rs arbitrary: d)
  case Nil
  then show ?case by simp
next
  case (Cons r rs)
  from Cons.prems obtain d1 where d1: "update_session_max_viewers uid now (h r) d = Inr d1"
    "fire_triggers (\<lambda>OLD. update_session_max_viewers uid now (h OLD)) rs d1 = Inr d'"
    by (auto split: sum.splits)
  from update_session_max_viewers_messages[OF d1(1)] Cons.IH[OF d1(2)]
  show ?case by simp
qed

lemma execute_message_types:
  assumes "execute st d = Inr d'"
      and "\<forall>m \<in> set (rp_session_messages d). rp_session_messages_check m"
  shows "\<forall>m \<in> set (rp_session_messages d'). rp_session_messages_check m"
proof (cases st)
  case (InsertSession uid NEW)
  with assms show ?thesis
    by (auto simp: insert_rp_session_def split: if_splits)
next
  case (UpdateSessions uid now wh f)
  with assms(1) have "update_rp_sessions uid now wh f d = Inr d'" by simp
  from update_rp_sessions_Inr(1)[OF this] assms(2) show ?thesis by simp
next
  case (InsertMessage uid now new_id NEW)
  with assms(1) have ins: "insert_rp_session_message uid now new_id NEW d = Inr d'" by simp
  from insert_rp_session_message_step(2,3)[OF ins] assms(2) show ?thesis by simp
next
  case (UpdateMessages uid wh f)
  with assms(1) have "update_rp_session_messages uid wh f d = Inr d'" by simp
  then show ?thesis using assms(2) by (rule update_rp_session_messages_types)
next
  case (InsertViewer uid now NEW)
  with assms(1) have "update_session_max_viewers uid now NEW
      (d\<lparr>rp_session_viewers := rp_session_viewers d @ [NEW]\<rparr>) = Inr d'"
    by (auto simp: insert_rp_session_viewer_def split: if_splits)
  from update_session_max_viewers_messages[OF this] assms(2) show ?thesis by simp
next
  case (UpdateLastSeen uid now sid u t)
  with assms(1) have "update_last_seen uid now sid u t d = Inr d'" by simp
  from fire_triggers_messages[OF this[unfolded update_last_seen_def Let_def]] assms(2)
  show ?thesis by simp
next
  case (UpsertViewer uid now new_id sid u t)
  with assms(1) have "update_last_seen uid now sid u t d = Inr d' \<or>
      update_session_max_viewers uid now
        \<lparr>v_id = new_id, v_session_id = sid, v_user_id = u, joined_at = now, last_seen = t\<rparr>
        (d\<lparr>rp_session_viewers := rp_session_viewers d @
            [\<lparr>v_id = new_id, v_session_id = sid, v_user_id = u, joined_at = now, last_seen = t\<rparr>]\<rparr>) = Inr d'"
    by (auto simp: upsert_rp_session_viewer_def insert_rp_session_viewer_def Let_def split: if_splits)
  then show ?thesis
  proof
    assume "update_last_seen uid now sid u t d = Inr d'"
    from fire_triggers_messages[OF this[unfolded update_last_seen_def Let_def]] assms(2)
    show ?thesis by simp
  next
    assume "update_session_max_viewers uid now
        \<lparr>v_id = new_id, v_session_id = sid, v_user_id = u, joined_at = now, last_seen = t\<rparr>
        (d\<lparr>rp_session_viewers := rp_session_viewers d @
            [\<lparr>v_id = new_id, v_session_id = sid, v_user_id = u, joined_at = now, last_seen = t\<rparr>]\<rparr>) = Inr d'"
    from update_session_max_viewers_messages[OF this] assms(2) show ?thesis by simp
  qed
next
  case (DeleteViewer uid sid u)
  with assms show ?thesis by (auto simp: delete_rp_session_viewer_def)
qed

lemma run_message_types:
  assumes "\<forall>m \<in> set (rp_session_messages d). rp_session_messages_check m"
  shows "\<forall>m \<in> set (rp_session_messages (run sts d)).
           message_type m = ''ooc'' \<or> message_type m = ''narration''"
proof -
  have "\<forall>m \<in> set (rp_session_messages (run sts d)). rp_session_messages_check m"
    using assms
  proof (induction sts arbitrary: d)
    case Nil
    then show ?case by simp
  next
    case (Cons st sts)
    show ?case
    proof (cases "execute st d")
      case (Inl e)
      with Cons show ?thesis by simp
    next
      case (Inr d')
      from execute_message_types[OF Inr Cons.prems] Cons.IH Inr show ?thesis by simp
    qed
  qed
  then show ?thesis by (simp add: rp_session_messages_check_def)
qed

text \<open>
  Claim C4, evaluated on two UPDATEs.  The INSERT policy admits a message only from a
  participant of its session, and the types are kept by the CHECK constraint (the lemmas
  above), but the UPDATE policies do not keep what the INSERT policy established.
  \<^verbatim>\<open>rp_session_messages_update_sender\<close> asks only that the user is the sender of the
  row, before and after: user 1 writes message 201 in session 100 (of users 1 and 2) and
  then moves it, with an UPDATE of \<^verbatim>\<open>session_id\<close>, into the public session 101 of
  users 3 and 4, where it is a message of a user who is neither party.  And
  \<^verbatim>\<open>rp_sessions_update_participants\<close> asks only that the user stays a participant:
  after user 2 has written message 201 in session 100, user 1 replaces \<^verbatim>\<open>user_b\<close> of
  that session by user 3, and the message of user 2 is in a session of users 1 and 3.
  The same message sent to session 101 with an INSERT is refused.
\<close>

theorem message_of_non_participant_after_update:
  "map (\<lambda>m. (m_id m, m_session_id m, sender_id m))
     (rp_session_messages
        (run [InsertMessage (Some 1) 5000 300 (ex_message 201 1 ''ooc'' None 4600 None),
              UpdateMessages (Some 1) (\<lambda>m. m_id m = 201) (\<lambda>m. m\<lparr>m_session_id := 101\<rparr>)]
           ex_two_sessions_db)) = [(201, 101, 1)] \<and>
   map (\<lambda>s. (s_id s, user_a s, user_b s))
     (rp_sessions
        (run [InsertMessage (Some 1) 5000 300 (ex_message 201 1 ''ooc'' None 4600 None),
              UpdateMessages (Some 1) (\<lambda>m. m_id m = 201) (\<lambda>m. m\<lparr>m_session_id := 101\<rparr>)]
           ex_two_sessions_db)) = [(100, 1, 2), (101, 3, 4)] \<and>
   map (\<lambda>m. (m_id m, m_session_id m, sender_id m))
     (rp_session_messages
        (run [InsertMessage (Some 2) 5000 300 (ex_message 201 2 ''ooc'' None 4600 None),
              UpdateSessions (Some 1) 6000 (\<lambda>s. s_id s = 100) (\<lambda>s. s\<lparr>user_b := 3\<rparr>)]
           ex_db)) = [(201, 100, 2)] \<and>
   map (\<lambda>s. (s_id s, user_a s, user_b s))
     (rp_sessions
        (run [InsertMessage (Some 2) 5000 300 (ex_message 201 2 ''ooc'' None 4600 None),
              UpdateSessions (Some 1) 6000 (\<lambda>s. s_id s = 100) (\<lambda>s. s\<lparr>user_b := 3\<rparr>)]
           ex_db)) = [(100, 1, 3)] \<and>
   execute (InsertMessage (Some 1) 5000 300
              ((ex_message 201 1 ''ooc'' None 4600 None)\<lparr>m_session_id := 101\<rparr>)) ex_two_sessions_db
     = Inl RowLevelSecurity"
  by (simp add: insert_rp_session_message_def calculate_response_time_def prev_message_query_def
        row_is_not_null_def order_desc_def update_rp_sessions_def update_rp_session_row_def
        update_rp_sessions_updated_at_def update_rp_session_messages_def
        update_rp_session_message_row_def select_into_def Let_def policy_defs ex_defs ex3_defs)

section \<open>The peak viewer count\<close>



lemma update_session_max_viewers_check:
  assumes "update_session_max_viewers uid now ROW d = Inr d'"
      and "\<forall>s \<in> set (rp_sessions d). rp_sessions_check s"
  shows "\<forall>s \<in> set (rp_sessions d'). rp_sessions_check s"
proof (cases "d' = d")
  case True
  with assms(2) show ?thesis by simp
next
  case False
  with assms(1) obtain n where
    "update_rp_sessions uid now (\<lambda>s. s_id s = v_session_id ROW) (\<lambda>s. s\<lparr>max_viewers := Some n\<rparr>) d = Inr d'"
    by (auto simp: update_session_max_viewers_def Let_def split: option.splits if_splits)
  then show ?thesis using assms(2) by (rule update_rp_sessions_check)
qed

text \<open>
  Each run of the trigger function leaves \<^verbatim>\<open>max_viewers\<close> (read with
  \<^verbatim>\<open>COALESCE(max_viewers, 0)\<close>) of every session at least as large as it was; the
  statements on \<^verbatim>\<open>rp_session_viewers\<close> write to \<^verbatim>\<open>rp_sessions\<close> in no other
  way.
\<close>

lemma max_viewers_never_decreases:
  assumes "update_session_max_viewers uid now ROW d = Inr d'"
      and "distinct (map s_id (rp_sessions d))"
  shows "list_all2 (\<lambda>s s'. s_id s' = s_id s \<and>
            (case max_viewers s of None \<Rightarrow> 0 | Some n \<Rightarrow> n)
              \<le> (case max_viewers s' of None \<Rightarrow> 0 | Some n \<Rightarrow> n))
           (rp_sessions d) (rp_sessions d')"
proof (cases "d' = d")
  case True
  then show ?thesis by (simp add: list_all2_same)
next
  case False
  let ?n = "int (length (filter (\<lambda>v. anyone_can_view_session_viewers uid (rp_sessions d) v \<and>
                                      v_session_id v = v_session_id ROW) (rp_session_viewers d)))"
  let ?q = "filter (\<lambda>s. rp_sessions_visible uid s \<and> s_id s = v_session_id ROW) (rp_sessions d)"
  from False assms(1) obtain s0 where
        q: "select_into ?q = Some s0"
    and gt: "?n > (case max_viewers s0 of None \<Rightarrow> 0 | Some n \<Rightarrow> n)"
    and u: "update_rp_sessions uid now (\<lambda>s. s_id s = v_session_id ROW)
              (\<lambda>s. s\<lparr>max_viewers := Some ?n\<rparr>) d = Inr d'"
    by (auto simp: update_session_max_viewers_def Let_def split: option.splits if_splits)
  from select_into_filter_Some[OF q] have s0: "s0 \<in> set (rp_sessions d)" "s_id s0 = v_session_id ROW"
    by auto
  show ?thesis
  proof (rule list.rel_mono_strong[OF update_rp_sessions_Inr(4)[OF u]])
    fix s s'
    assume s: "s \<in> set (rp_sessions d)"
      and row: "update_rp_session_row uid now (\<lambda>s. s_id s = v_session_id ROW)
                  (\<lambda>s. s\<lparr>max_viewers := Some ?n\<rparr>) s = Inr s'"
    show "s_id s' = s_id s \<and>
            (case max_viewers s of None \<Rightarrow> 0 | Some n \<Rightarrow> n)
              \<le> (case max_viewers s' of None \<Rightarrow> 0 | Some n \<Rightarrow> n)"
    proof (cases "s' = s")
      case True
      then show ?thesis by simp
    next
      case False
      with row have upd: "s_id s = v_session_id ROW" "s' = s\<lparr>max_viewers := Some ?n, updated_at := now\<rparr>"
        by (auto simp: update_rp_session_row_def update_rp_sessions_updated_at_def Let_def
                 split: if_splits)
      from assms(2) have "inj_on s_id (set (rp_sessions d))" by (simp only: distinct_map)
      moreover have "s_id s = s_id s0" using upd(1) s0(2) by simp
      ultimately have "s = s0" using s s0(1) by (rule inj_onD)
      with gt upd(2) show ?thesis by simp
    qed
  qed
qed


lemma fire_triggers_check:
  assumes "fire_triggers (\<lambda>OLD. update_session_max_viewers uid now (h OLD)) rs d = Inr d'"
      and "\<forall>s \<in> set (rp_sessions d). rp_sessions_check s"
  shows "\<forall>s \<in> set (rp_sessions d'). rp_sessions_check s"
  using assms
proof (induction rs arbitrary: d)
  case Nil
  then show ?case by simp
next
  case (Cons r rs)
  from Cons.prems(1) obtain d1 where d1: "update_session_max_viewers uid now (h r) d = Inr d1"
    "fire_triggers (\<lambda>OLD. update_session_max_viewers uid now (h OLD)) rs d1 = Inr d'"
    by (auto split: sum.splits)
  from update_session_max_viewers_check[OF d1(1) Cons.prems(2)] Cons.IH[OF d1(2)]
  show ?case by blast
qed


text \<open>
  Claim C1, evaluated on a first spectator.  User 3, who is not a participant of the public
  session 100 of users 1 and 2, opens the session page and \<^verbatim>\<open>trackViewer\<close> makes
  that user its first viewer (and starts the heartbeat timer).  The INSERT goes through and
  the trigger runs, but its UPDATE of \<^verbatim>\<open>rp_sessions\<close> is issued with the rights of
  user 3, whom the policy \<^verbatim>\<open>rp_sessions_update_participants\<close> lets update no row of
  that session: \<^verbatim>\<open>max_viewers\<close> stays 0 with one viewer row present.  The same
  INSERT by the participant 1 raises it to 1.
\<close>

theorem max_viewers_not_raised_by_spectator:
  "trackViewer (Some 3) 1000 1000 503 100 ex_db =
     (ex_db\<lparr>rp_session_viewers := [ex_viewer 503 3 1000 1000]\<rparr>, Some 30000) \<and>
   insert_rp_session_viewer (Some 3) 1000 (ex_viewer 503 3 1000 1000) ex_db =
     Inr (ex_db\<lparr>rp_session_viewers := [ex_viewer 503 3 1000 1000]\<rparr>) \<and>
   map max_viewers (rp_sessions (ex_db\<lparr>rp_session_viewers := [ex_viewer 503 3 1000 1000]\<rparr>)) = [Some 0] \<and>
   length (filter (\<lambda>v. v_session_id v = 100)
      (rp_session_viewers (ex_db\<lparr>rp_session_viewers := [ex_viewer 503 3 1000 1000]\<rparr>))) = 1 \<and>
   insert_rp_session_viewer (Some 1) 1000 (ex_viewer 501 1 1000 1000) ex_db =
     Inr (ex_db\<lparr>rp_session_viewers := [ex_viewer 501 1 1000 1000],
               rp_sessions := [ex_session\<lparr>max_viewers := Some 1, updated_at := 1000\<rparr>]\<rparr>)"
  by (simp add: trackViewer_def heartbeat_interval_ms_def upsert_rp_session_viewer_def
        insert_rp_session_viewer_def update_session_max_viewers_def update_rp_sessions_def update_rp_session_row_def
        update_rp_sessions_updated_at_def select_into_def Let_def policy_defs ex_defs)

section \<open>The viewer list and the heartbeat\<close>













section \<open>Anonymous visitors\<close>

text \<open>
  Claim C10.  Without a logged-in user, \<^verbatim>\<open>trackViewer\<close>, the heartbeat and the whole
  viewer-tracking effect leave the database as it is and start no timer, and the database
  refuses an INSERT or upsert into \<^verbatim>\<open>rp_session_viewers\<close> from a request without
  \<^verbatim>\<open>auth.uid()\<close>; an UPDATE or DELETE from such a request touches no row.  So the
  viewer rows, the viewer list computed from them and \<^verbatim>\<open>max_viewers\<close> are the same
  as if the anonymous visitor had not come.
\<close>

theorem anonymous_visitor_not_tracked:
  "trackViewer None clientNow now new_id sessionId d = (d, None) \<and>
   heartbeat None mounted clientNow now sessionId d = d \<and>
   viewer_tracking_effect session None sessionId clientNow now new_id d = (d, None) \<and>
   insert_rp_session_viewer None now NEW d = Inl RowLevelSecurity \<and>
   upsert_rp_session_viewer None now new_id sessionId u t d = Inl RowLevelSecurity \<and>
   update_last_seen None now sessionId u t d = Inr d \<and>
   delete_rp_session_viewer None sessionId u d = d"
  by (simp add: trackViewer_def heartbeat_def viewer_tracking_effect_def
        insert_rp_session_viewer_def upsert_rp_session_viewer_def update_last_seen_def
        delete_rp_session_viewer_def users_can_join_as_viewers_def
        users_can_update_their_viewer_status_def users_can_leave_session_view_def Let_def
        split: option.splits)

theorem anonymous_visitor_not_tracked_witness:
  "trackViewer None 5 6 509 100 ex_db = (ex_db, None) \<and>
   viewer_tracking_effect (Some ex_session) None 100 5 6 509 ex_db = (ex_db, None) \<and>
   insert_rp_session_viewer None 6 (ex_viewer 509 9 6 5) ex_db = Inl RowLevelSecurity"
  using anonymous_visitor_not_tracked[of 5 6 509 100 ex_db True "Some ex_session" "ex_viewer 509 9 6 5" 9 5]
  by simp

section \<open>Access to the session page\<close>




section \<open>Inactivity reminders\<close>

lemma minutes_since: "((of_int x :: rat) / (1000 * 60) \<ge> 5) = (x \<ge> 5 * 60 * 1000)"
proof -
  have "((of_int x :: rat) / (1000 * 60) \<ge> 5) = ((of_int x :: rat) \<ge> of_int 300000)"
    by (simp add: le_divide_eq)
  also have "\<dots> = (x \<ge> 300000)" by (simp only: of_int_le_iff)
  finally show ?thesis by simp
qed

lemma checkInactivity_iff:
  "checkInactivity session inactivityReminder now1 now2 \<longleftrightarrow>
     (\<exists>lm. last_message_at session = Some lm \<and> now1 - lm \<ge> 5 * 60 * 1000) \<and>
     \<not> inactivityReminder \<and>
     (\<forall>sent. reminder_sent_at session = Some sent \<longrightarrow> now2 - sent > 60 * 60 * 1000)"
  by (auto simp: checkInactivity_def Let_def minutes_since split: option.splits)

lemma sendInactivityReminder_sent:
  assumes sent: "sendInactivityReminder (Some u) sessionId clientNow now new_id resp_id d = (d', True)"
      and wf: "\<forall>s \<in> set (rp_sessions d). rp_sessions_check s"
      and dist: "distinct (map s_id (rp_sessions d))"
  shows "rp_session_messages d' = rp_session_messages d @
           [\<lparr>m_id = new_id, m_session_id = sessionId, sender_id = u, message_type = ''ooc'',
             body = reminderText, character_id = None, m_created_at = now, edited_at = None\<rparr>]"
    and "\<exists>s \<in> set (rp_sessions d'). s_id s = sessionId"
    and "\<forall>s \<in> set (rp_sessions d'). s_id s = sessionId \<longrightarrow> reminder_sent_at s = Some clientNow"
proof -
  let ?NEW = "\<lparr>m_id = new_id, m_session_id = sessionId, sender_id = u, message_type = ''ooc'',
             body = reminderText, character_id = None, m_created_at = now, edited_at = None\<rparr>"
  let ?f = "\<lambda>s. s\<lparr>reminder_sent_at := Some clientNow\<rparr>"
  let ?g = "\<lambda>s. if s_id s = sessionId \<and> rp_sessions_visible (Some u) s \<and>
                    rp_sessions_update_participants (Some u) s
                 then (?f s)\<lparr>updated_at := now\<rparr> else s"
  from sent obtain d1 where ins: "insert_rp_session_message (Some u) now resp_id ?NEW d = Inr d1"
    by (auto simp: sendInactivityReminder_def split: sum.splits)
  note step = insert_rp_session_message_step[OF ins]
  have wf1: "\<forall>s \<in> set (rp_sessions d1). rp_sessions_check s"
  proof
    fix s' assume "s' \<in> set (rp_sessions d1)"
    from list_all2_right[OF step(5) this] obtain s where "s \<in> set (rp_sessions d)" "status s' = status s"
      by blast
    with wf show "rp_sessions_check s'" by (auto simp: rp_sessions_check_def)
  qed
  have upd: "update_rp_sessions (Some u) now (\<lambda>s. s_id s = sessionId) ?f d1 =
               Inr (d1\<lparr>rp_sessions := map ?g (rp_sessions d1)\<rparr>)"
    using wf1 by (subst update_rp_sessions_eq) simp_all
  with sent ins have d': "d' = d1\<lparr>rp_sessions := map ?g (rp_sessions d1)\<rparr>"
    by (simp add: sendInactivityReminder_def)
  show "rp_session_messages d' = rp_session_messages d @ [?NEW]"
    using step(3) by (simp add: d')
  from step(1) obtain s0 where s0: "s0 \<in> set (rp_sessions d)" "s_id s0 = sessionId"
    "rp_sessions_visible (Some u) s0" "u = user_a s0 \<or> u = user_b s0"
    by (auto simp: rp_session_messages_insert_sender_def)
  have ids: "map s_id (rp_sessions d1) = map s_id (rp_sessions d)"
    by (rule list_all2_map_eq) (rule list_all2_mono[OF step(5)], simp)
  have target: "rp_sessions_visible (Some u) s1 \<and> rp_sessions_update_participants (Some u) s1"
    if s1: "s1 \<in> set (rp_sessions d1)" "s_id s1 = sessionId" for s1
  proof -
    from list_all2_right[OF step(5) s1(1)] obtain s where s: "s \<in> set (rp_sessions d)"
      "s_id s1 = s_id s" "user_a s1 = user_a s" "user_b s1 = user_b s" "is_public s1 = is_public s"
      by blast
    from dist have "inj_on s_id (set (rp_sessions d))" by (simp only: distinct_map)
    moreover have "s_id s = s_id s0" using s(2) s1(2) s0(2) by simp
    ultimately have "s = s0" using s(1) s0(1) by (rule inj_onD)
    with s s0 show ?thesis
      by (auto simp: rp_sessions_visible_def rp_sessions_select_participants_def
                     rp_sessions_update_participants_def anyone_can_view_public_sessions_def)
  qed
  from list_all2_left[OF step(5) s0(1)] obtain s1 where "s1 \<in> set (rp_sessions d1)" "s_id s1 = sessionId"
    using s0(2) by auto
  then have "?g s1 \<in> set (rp_sessions d')" "s_id (?g s1) = sessionId"
    by (simp_all add: d')
  then show "\<exists>s \<in> set (rp_sessions d'). s_id s = sessionId" by blast
  show "\<forall>s \<in> set (rp_sessions d'). s_id s = sessionId \<longrightarrow> reminder_sent_at s = Some clientNow"
  proof (intro ballI impI)
    fix s assume sin: "s \<in> set (rp_sessions d')" and sid: "s_id s = sessionId"
    from sin have "s \<in> ?g ` set (rp_sessions d1)" by (simp add: d')
    then obtain s1 where s1: "s1 \<in> set (rp_sessions d1)" and sg: "s = ?g s1" by (rule imageE)
    have gid: "s_id (?g s1) = s_id s1" by simp
    from sid have "s_id (?g s1) = sessionId" unfolding sg .
    then have id1: "s_id s1 = sessionId" by (simp only: gid)
    from target[OF s1 id1] id1 have "?g s1 = (?f s1)\<lparr>updated_at := now\<rparr>" by simp
    then have "reminder_sent_at (?g s1) = Some clientNow" by simp
    then show "reminder_sent_at s = Some clientNow" unfolding sg .
  qed
qed

text \<open>
  Claim C6.  When fewer than five minutes have passed since the session's
  \<^verbatim>\<open>last_message_at\<close>, or when \<^verbatim>\<open>reminder_sent_at\<close> is set and less than one hour
  old, the inactivity check does not call \<^verbatim>\<open>sendInactivityReminder\<close> and changes
  nothing.  A call of \<^verbatim>\<open>sendInactivityReminder\<close> that sends no reminder changes
  nothing either; one that sends it (sessions satisfying their CHECK constraint and having
  unique ids) appends one message of type 'ooc' with the reminder text from the user to
  the session, and leaves the session's \<^verbatim>\<open>reminder_sent_at\<close> at the client's current
  time.
\<close>

theorem inactivity_reminder:
  "(\<forall>lm. last_message_at session = Some lm \<and> now1 - lm < 5 * 60 * 1000 \<longrightarrow>
      \<not> checkInactivity session inactivityReminder now1 now2 \<and>
      inactivity_check (Some session) me inactivityReminder sessionId now1 now2 clientNow now new_id resp_id d
        = (d, inactivityReminder)) \<and>
   (\<forall>sent. reminder_sent_at session = Some sent \<and> now2 - sent < 60 * 60 * 1000 \<longrightarrow>
      \<not> checkInactivity session inactivityReminder now1 now2 \<and>
      inactivity_check (Some session) me inactivityReminder sessionId now1 now2 clientNow now new_id resp_id d
        = (d, inactivityReminder)) \<and>
   (\<forall>d'. sendInactivityReminder me sessionId clientNow now new_id resp_id d = (d', False) \<longrightarrow> d' = d) \<and>
   (\<forall>u d'. sendInactivityReminder (Some u) sessionId clientNow now new_id resp_id d = (d', True) \<and>
           (\<forall>s \<in> set (rp_sessions d). rp_sessions_check s) \<and> distinct (map s_id (rp_sessions d)) \<longrightarrow>
      rp_session_messages d' = rp_session_messages d @
           [\<lparr>m_id = new_id, m_session_id = sessionId, sender_id = u, message_type = ''ooc'',
             body = reminderText, character_id = None, m_created_at = now, edited_at = None\<rparr>] \<and>
      (\<exists>s \<in> set (rp_sessions d'). s_id s = sessionId) \<and>
      (\<forall>s \<in> set (rp_sessions d'). s_id s = sessionId \<longrightarrow> reminder_sent_at s = Some clientNow))"
proof (intro conjI allI impI)
  fix lm assume "last_message_at session = Some lm \<and> now1 - lm < 5 * 60 * 1000"
  then show c: "\<not> checkInactivity session inactivityReminder now1 now2"
    by (auto simp: checkInactivity_iff)
  then show "inactivity_check (Some session) me inactivityReminder sessionId now1 now2 clientNow now new_id resp_id d
        = (d, inactivityReminder)"
    by (simp add: inactivity_check_def)
next
  fix sent assume "reminder_sent_at session = Some sent \<and> now2 - sent < 60 * 60 * 1000"
  then show c: "\<not> checkInactivity session inactivityReminder now1 now2"
    by (auto simp: checkInactivity_iff)
  then show "inactivity_check (Some session) me inactivityReminder sessionId now1 now2 clientNow now new_id resp_id d
        = (d, inactivityReminder)"
    by (simp add: inactivity_check_def)
next
  fix d' assume "sendInactivityReminder me sessionId clientNow now new_id resp_id d = (d', False)"
  then show "d' = d"
    by (auto simp: sendInactivityReminder_def split: option.splits sum.splits)
next
  fix u d'
  assume a: "sendInactivityReminder (Some u) sessionId clientNow now new_id resp_id d = (d', True) \<and>
           (\<forall>s \<in> set (rp_sessions d). rp_sessions_check s) \<and> distinct (map s_id (rp_sessions d))"
  then have s: "sendInactivityReminder (Some u) sessionId clientNow now new_id resp_id d = (d', True)"
    and wf: "\<forall>s \<in> set (rp_sessions d). rp_sessions_check s"
    and di: "distinct (map s_id (rp_sessions d))"
    by simp_all
  from sendInactivityReminder_sent[OF s wf di]
  show "rp_session_messages d' = rp_session_messages d @
           [\<lparr>m_id = new_id, m_session_id = sessionId, sender_id = u, message_type = ''ooc'',
             body = reminderText, character_id = None, m_created_at = now, edited_at = None\<rparr>]"
    and "\<exists>s \<in> set (rp_sessions d'). s_id s = sessionId"
    and "\<forall>s \<in> set (rp_sessions d'). s_id s = sessionId \<longrightarrow> reminder_sent_at s = Some clientNow"
    by simp_all
qed

theorem inactivity_reminder_witness:
  "\<not> checkInactivity (ex_session\<lparr>last_message_at := Some 0\<rparr>) False 200000 200000 \<and>
   checkInactivity (ex_session\<lparr>last_message_at := Some 0\<rparr>) False 300000 300000 \<and>
   \<not> checkInactivity (ex_session\<lparr>last_message_at := Some 0, reminder_sent_at := Some 300000\<rparr>)
        False 3000000 3000000 \<and>
   sendInactivityReminder (Some 3) 100 300000 300001 201 300 ex_db = (ex_db, False) \<and>
   sendInactivityReminder (Some 1) 100 300000 300001 201 300 ex_db =
     (ex_db\<lparr>rp_session_messages :=
              [\<lparr>m_id = 201, m_session_id = 100, sender_id = 1, message_type = ''ooc'',
                body = reminderText, character_id = None, m_created_at = 300001,
                edited_at = None\<rparr>],
            rp_sessions :=
              [ex_session\<lparr>last_message_at := Some 300001, reminder_sent_at := Some 300000,
                          updated_at := 300001\<rparr>]\<rparr>, True) \<and>
   rp_sessions_check ex_session \<and> distinct (map s_id (rp_sessions ex_db)) \<and>
   reminder_sent_at (ex_session\<lparr>last_message_at := Some 300001, reminder_sent_at := Some 300000,
                               updated_at := 300001\<rparr>) = Some 300000"
proof -
  note inst1 = inactivity_reminder[of "ex_session\<lparr>last_message_at := Some 0\<rparr>" 200000 False 200000
                  "Some 1" 100 300000 300001 201 300 ex_db]
  note inst2 = inactivity_reminder[of "ex_session\<lparr>last_message_at := Some 0, reminder_sent_at := Some 300000\<rparr>"
                  3000000 False 3000000 "Some 3" 100 300000 300001 201 300 ex_db]
  have a: "\<not> checkInactivity (ex_session\<lparr>last_message_at := Some 0\<rparr>) False 200000 200000"
    using inst1 by (simp add: ex_defs)
  have b: "\<not> checkInactivity (ex_session\<lparr>last_message_at := Some 0, reminder_sent_at := Some 300000\<rparr>)
        False 3000000 3000000"
    using inst2 by (simp add: ex_defs)
  have c: "checkInactivity (ex_session\<lparr>last_message_at := Some 0\<rparr>) False 300000 300000"
    by (simp add: checkInactivity_iff ex_defs)
  have e3: "sendInactivityReminder (Some 3) 100 300000 300001 201 300 ex_db = (ex_db, False)"
    by (simp add: sendInactivityReminder_def insert_rp_session_message_def policy_defs ex_defs)
  have e1: "sendInactivityReminder (Some 1) 100 300000 300001 201 300 ex_db =
     (ex_db\<lparr>rp_session_messages :=
              [\<lparr>m_id = 201, m_session_id = 100, sender_id = 1, message_type = ''ooc'',
                body = reminderText, character_id = None, m_created_at = 300001,
                edited_at = None\<rparr>],
            rp_sessions :=
              [ex_session\<lparr>last_message_at := Some 300001, reminder_sent_at := Some 300000,
                          updated_at := 300001\<rparr>]\<rparr>, True)"
    by (simp add: sendInactivityReminder_def insert_rp_session_message_def
          calculate_response_time_def prev_message_query_def row_is_not_null_def order_desc_def
          update_rp_sessions_def update_rp_session_row_def update_rp_sessions_updated_at_def
          select_into_def Let_def policy_defs ex_defs)
  have wf: "\<forall>s \<in> set (rp_sessions ex_db). rp_sessions_check s"
    by (simp add: ex_defs rp_sessions_check_def)
  have di: "distinct (map s_id (rp_sessions ex_db))" by (simp add: ex_defs)
  from inst1 e1 wf di
  have f: "\<forall>s \<in> set [ex_session\<lparr>last_message_at := Some 300001, reminder_sent_at := Some 300000,
                               updated_at := 300001\<rparr>].
      s_id s = 100 \<longrightarrow> reminder_sent_at s = Some 300000"
    by (simp add: ex_defs)
  from wf have wf': "rp_sessions_check ex_session" by (simp add: ex_defs)
  from f have f': "reminder_sent_at (ex_session\<lparr>last_message_at := Some 300001,
                     reminder_sent_at := Some 300000, updated_at := 300001\<rparr>) = Some 300000"
    by simp
  from a b c e3 e1 wf' di f' show ?thesis by blast
qed

section \<open>Reusing a direct-message thread\<close>

text \<open>
  Claim C7.  For the logged-in user and another user: if some thread links the two (in
  either orientation), \<^verbatim>\<open>openDmWith\<close> returns the id of a linking thread with the
  greatest \<^verbatim>\<open>created_at\<close> and leaves the table as it is; if none does and the table
  accepts the new row, it appends exactly one thread, from the user to the other, and
  returns its id; and whatever a successful call returned, a second call with the same
  two users on the table it left returns the same id and changes nothing.
\<close>

theorem openDmWith_reuses_or_creates:
  "((\<exists>t \<in> set dm_threads. (t_user_a t = me \<and> t_user_b t = other) \<or> (t_user_a t = other \<and> t_user_b t = me)) \<longrightarrow>
      (\<exists>t \<in> set dm_threads.
          ((t_user_a t = me \<and> t_user_b t = other) \<or> (t_user_a t = other \<and> t_user_b t = me)) \<and>
          (\<forall>t' \<in> set dm_threads.
              (t_user_a t' = me \<and> t_user_b t' = other) \<or> (t_user_a t' = other \<and> t_user_b t' = me)
              \<longrightarrow> t_created_at t' \<le> t_created_at t) \<and>
          openDmWith (AuthUser me) other accepts new_id now dm_threads = Inr (t_id t, dm_threads))) \<and>
   (\<not> (\<exists>t \<in> set dm_threads. (t_user_a t = me \<and> t_user_b t = other) \<or> (t_user_a t = other \<and> t_user_b t = me)) \<and>
    accepts \<lparr>t_id = new_id, t_user_a = me, t_user_b = other, t_created_at = now\<rparr> dm_threads \<longrightarrow>
      openDmWith (AuthUser me) other accepts new_id now dm_threads =
        Inr (new_id, dm_threads @ [\<lparr>t_id = new_id, t_user_a = me, t_user_b = other, t_created_at = now\<rparr>])) \<and>
   (\<forall>thread_id dm_threads'.
      openDmWith (AuthUser me) other accepts new_id now dm_threads = Inr (thread_id, dm_threads') \<longrightarrow>
      openDmWith (AuthUser me) other accepts' new_id' now' dm_threads' = Inr (thread_id, dm_threads'))"
proof -
  let ?link = "\<lambda>t. (t_user_a t = me \<and> t_user_b t = other) \<or> (t_user_a t = other \<and> t_user_b t = me)"
  let ?NEW = "\<lparr>t_id = new_id, t_user_a = me, t_user_b = other, t_created_at = now\<rparr>"
  have found: "openDmWith (AuthUser me) other acc i n ts = Inr (t_id x, ts)"
    if "order_desc t_created_at (filter ?link ts) = x # rest" for acc i n ts x rest
    using that by (simp add: openDmWith_def)
  have none: "openDmWith (AuthUser me) other accepts new_id now dm_threads =
                (if accepts ?NEW dm_threads then Inr (new_id, dm_threads @ [?NEW]) else Inl InsertError)"
    if "filter ?link dm_threads = []"
    using that by (simp add: openDmWith_def order_desc_def)
  have c1: "\<exists>t \<in> set dm_threads. ?link t \<and>
          (\<forall>t' \<in> set dm_threads. ?link t' \<longrightarrow> t_created_at t' \<le> t_created_at t) \<and>
          openDmWith (AuthUser me) other accepts new_id now dm_threads = Inr (t_id t, dm_threads)"
    if ex: "\<exists>t \<in> set dm_threads. ?link t"
  proof -
    from ex have "filter ?link dm_threads \<noteq> []" by (simp add: filter_empty_conv)
    then have "order_desc t_created_at (filter ?link dm_threads) \<noteq> []"
      by (simp only: order_desc_Nil_iff not_False_eq_True)
    then obtain x rest where xr: "order_desc t_created_at (filter ?link dm_threads) = x # rest"
      by (cases "order_desc t_created_at (filter ?link dm_threads)") auto
    from order_desc_head[OF xr] have "x \<in> set dm_threads" "?link x"
      "\<forall>t' \<in> set dm_threads. ?link t' \<longrightarrow> t_created_at t' \<le> t_created_at x"
      by auto
    with found[OF xr] show ?thesis by blast
  qed
  have c2: "openDmWith (AuthUser me) other accepts new_id now dm_threads = Inr (new_id, dm_threads @ [?NEW])"
    if "\<not> (\<exists>t \<in> set dm_threads. ?link t) \<and> accepts ?NEW dm_threads"
  proof -
    from that have "filter ?link dm_threads = []" by (simp add: filter_empty_conv)
    from none[OF this] that show ?thesis by simp
  qed
  have c3: "openDmWith (AuthUser me) other accepts' new_id' now' ts' = Inr (r, ts')"
    if res: "openDmWith (AuthUser me) other accepts new_id now dm_threads = Inr (r, ts')" for r ts'
  proof (cases "order_desc t_created_at (filter ?link dm_threads)")
    case Nil
    then have f: "filter ?link dm_threads = []" by (simp only: order_desc_Nil_iff)
    from none[OF f] res have r: "r = new_id" "ts' = dm_threads @ [?NEW]"
      by (auto split: if_splits)
    have "order_desc t_created_at (filter ?link ts') = [?NEW]"
      unfolding r using f by (simp add: order_desc_def)
    from found[OF this] show ?thesis by (simp add: r)
  next
    case (Cons x rest)
    from found[OF Cons] res have "r = t_id x" "ts' = dm_threads" by simp_all
    with found[OF Cons] show ?thesis by simp
  qed
  from c1 c2 c3 show ?thesis by blast
qed

theorem openDmWith_reuses_or_creates_witness:
  "openDmWith (AuthUser 1) 2 (\<lambda>_ _. True) 12 7
     [ex_thread, \<lparr>t_id = 11, t_user_a = 2, t_user_b = 1, t_created_at = 5\<rparr>] =
     Inr (11, [ex_thread, \<lparr>t_id = 11, t_user_a = 2, t_user_b = 1, t_created_at = 5\<rparr>]) \<and>
   openDmWith (AuthUser 1) 9 (\<lambda>_ _. True) 12 7 [ex_thread] =
     Inr (12, [ex_thread, \<lparr>t_id = 12, t_user_a = 1, t_user_b = 9, t_created_at = 7\<rparr>]) \<and>
   openDmWith (AuthUser 1) 9 (\<lambda>_ _. False) 13 8
     [ex_thread, \<lparr>t_id = 12, t_user_a = 1, t_user_b = 9, t_created_at = 7\<rparr>] =
     Inr (12, [ex_thread, \<lparr>t_id = 12, t_user_a = 1, t_user_b = 9, t_created_at = 7\<rparr>])"
proof -
  note i1 = openDmWith_reuses_or_creates[of "[ex_thread, \<lparr>t_id = 11, t_user_a = 2, t_user_b = 1, t_created_at = 5\<rparr>]"
              1 2 "\<lambda>_ _. True" 12 7 "\<lambda>_ _. True" 12 7]
  note i2 = openDmWith_reuses_or_creates[of "[ex_thread]" 1 9 "\<lambda>_ _. True" 12 7 "\<lambda>_ _. False" 13 8]
  have a: "openDmWith (AuthUser 1) 2 (\<lambda>_ _. True) 12 7
     [ex_thread, \<lparr>t_id = 11, t_user_a = 2, t_user_b = 1, t_created_at = 5\<rparr>] =
     Inr (11, [ex_thread, \<lparr>t_id = 11, t_user_a = 2, t_user_b = 1, t_created_at = 5\<rparr>])"
    using i1 by (auto simp: ex_thread_def)
  have b: "openDmWith (AuthUser 1) 9 (\<lambda>_ _. True) 12 7 [ex_thread] =
     Inr (12, [ex_thread, \<lparr>t_id = 12, t_user_a = 1, t_user_b = 9, t_created_at = 7\<rparr>])"
    using i2 by (simp add: ex_thread_def)
  from i2 b have c: "openDmWith (AuthUser 1) 9 (\<lambda>_ _. False) 13 8
     [ex_thread, \<lparr>t_id = 12, t_user_a = 1, t_user_b = 9, t_created_at = 7\<rparr>] =
     Inr (12, [ex_thread, \<lparr>t_id = 12, t_user_a = 1, t_user_b = 9, t_created_at = 7\<rparr>])"
    by blast
  from a b c show ?thesis by blast
qed

section \<open>The status of a session\<close>

lemma execute_check:
  assumes "execute st d = Inr d'"
      and "\<forall>s \<in> set (rp_sessions d). rp_sessions_check s"
  shows "\<forall>s \<in> set (rp_sessions d'). rp_sessions_check s"
proof (cases st)
  case (InsertSession uid NEW)
  with assms show ?thesis
    by (auto simp: insert_rp_session_def split: if_splits)
next
  case (UpdateSessions uid now wh f)
  with assms(1) have "update_rp_sessions uid now wh f d = Inr d'" by simp
  then show ?thesis using assms(2) by (rule update_rp_sessions_check)
next
  case (InsertMessage uid now new_id NEW)
  with assms(1) have ins: "insert_rp_session_message uid now new_id NEW d = Inr d'" by simp
  show ?thesis
  proof
    fix s' assume "s' \<in> set (rp_sessions d')"
    from list_all2_right[OF insert_rp_session_message_step(5)[OF ins] this]
    obtain s where "s \<in> set (rp_sessions d)" "status s' = status s" by blast
    with assms(2) show "rp_sessions_check s'" by (auto simp: rp_sessions_check_def)
  qed
next
  case (UpdateMessages uid wh f)
  with assms(1) have "update_rp_session_messages uid wh f d = Inr d'" by simp
  from update_rp_session_messages_Inr(1)[OF this] assms(2) show ?thesis by simp
next
  case (InsertViewer uid now NEW)
  with assms(1) have "update_session_max_viewers uid now NEW
      (d\<lparr>rp_session_viewers := rp_session_viewers d @ [NEW]\<rparr>) = Inr d'"
    by (auto simp: insert_rp_session_viewer_def split: if_splits)
  from update_session_max_viewers_check[OF this] assms(2) show ?thesis by simp
next
  case (UpdateLastSeen uid now sid u t)
  with assms(1) have "update_last_seen uid now sid u t d = Inr d'" by simp
  from fire_triggers_check[OF this[unfolded update_last_seen_def Let_def]] assms(2)
  show ?thesis by simp
next
  case (UpsertViewer uid now new_id sid u t)
  with assms(1) have "update_last_seen uid now sid u t d = Inr d' \<or>
      update_session_max_viewers uid now
        \<lparr>v_id = new_id, v_session_id = sid, v_user_id = u, joined_at = now, last_seen = t\<rparr>
        (d\<lparr>rp_session_viewers := rp_session_viewers d @
            [\<lparr>v_id = new_id, v_session_id = sid, v_user_id = u, joined_at = now, last_seen = t\<rparr>]\<rparr>) = Inr d'"
    by (auto simp: upsert_rp_session_viewer_def insert_rp_session_viewer_def Let_def split: if_splits)
  then show ?thesis
  proof
    assume "update_last_seen uid now sid u t d = Inr d'"
    from fire_triggers_check[OF this[unfolded update_last_seen_def Let_def]] assms(2)
    show ?thesis by simp
  next
    assume "update_session_max_viewers uid now
        \<lparr>v_id = new_id, v_session_id = sid, v_user_id = u, joined_at = now, last_seen = t\<rparr>
        (d\<lparr>rp_session_viewers := rp_session_viewers d @
            [\<lparr>v_id = new_id, v_session_id = sid, v_user_id = u, joined_at = now, last_seen = t\<rparr>]\<rparr>) = Inr d'"
    from update_session_max_viewers_check[OF this] assms(2) show ?thesis by simp
  qed
next
  case (DeleteViewer uid sid u)
  with assms show ?thesis by (auto simp: delete_rp_session_viewer_def)
qed

lemma run_check:
  assumes "\<forall>s \<in> set (rp_sessions d). rp_sessions_check s"
  shows "\<forall>s \<in> set (rp_sessions (run sts d)). rp_sessions_check s"
  using assms
proof (induction sts arbitrary: d)
  case Nil
  then show ?case by simp
next
  case (Cons st sts)
  show ?case
  proof (cases "execute st d")
    case (Inl e)
    with Cons show ?thesis by simp
  next
    case (Inr d')
    from execute_check[OF Inr Cons.prems] Cons.IH Inr show ?thesis by simp
  qed
qed

lemma set_insert_by: "set (insert_by cmp x xs) = insert x (set xs)"
  by (induction xs) auto

lemma set_array_sort: "set (array_sort cmp xs) = set xs"
  unfolding array_sort_def by (induction xs) (simp_all add: set_insert_by)

lemma SessionsPage_load_status:
  assumes "c \<in> set (SessionsPage_load userId reads d)"
  shows "\<exists>s \<in> set (rp_sessions d). c_status c = status s"
proof -
  from assms have "c \<in> set (array_sort compare_sessions
     (map (\<lambda>session.
             \<lparr>c_id = s_id session, c_user_a = user_a session, c_user_b = user_b session,
               c_status = status session, c_created_at = s_created_at session,
               c_last_message_at = last_message_at session,
               c_latest_message =
                 maybeSingle (take 1 (order_desc m_created_at
                   (filter (\<lambda>m. m_session_id m = s_id session)
                      (filter (rp_session_messages_select_participants (Some userId) (rp_sessions d))
                         (rp_session_messages d))))),
               c_unread_count =
                 session_unread_count userId session
                   (filter (rp_session_messages_select_participants (Some userId) (rp_sessions d))
                      (rp_session_messages d)) reads\<rparr>)
        (order_desc s_created_at
           (filter (\<lambda>s. rp_sessions_visible (Some userId) s \<and> (user_a s = userId \<or> user_b s = userId))
              (rp_sessions d)))))"
    by (simp add: SessionsPage_load_def Let_def split: if_splits)
  then obtain s where "s \<in> set (order_desc s_created_at
           (filter (\<lambda>s. rp_sessions_visible (Some userId) s \<and> (user_a s = userId \<or> user_b s = userId))
              (rp_sessions d)))" "c_status c = status s"
    unfolding set_array_sort by auto
  then show ?thesis by (auto simp: order_desc_def)
qed

text \<open>
  Claim C9.  In every database reached from the empty one by the modelled statements
  (with any users, rows, WHERE and SET clauses), every row of \<^verbatim>\<open>rp_sessions\<close> has the
  status 'active' or 'closed'.  So no session that the sessions page loads has the status
  'paused': the filter "paused" shows an empty list and the count on its button is 0.
\<close>

theorem paused_never_matches:
  "(\<forall>s \<in> set (rp_sessions (run sts empty_db)). status s = ''active'' \<or> status s = ''closed'') \<and>
   (\<forall>c \<in> set (SessionsPage_load userId reads (run sts empty_db)). c_status c \<noteq> ''paused'') \<and>
   filteredSessions ''paused'' (SessionsPage_load userId reads (run sts empty_db)) = [] \<and>
   paused_count (SessionsPage_load userId reads (run sts empty_db)) = 0"
proof -
  have "\<forall>s \<in> set (rp_sessions empty_db). rp_sessions_check s" by (simp add: empty_db_def)
  then have wf: "\<forall>s \<in> set (rp_sessions (run sts empty_db)). rp_sessions_check s"
    by (rule run_check)
  then have st: "\<forall>s \<in> set (rp_sessions (run sts empty_db)). status s = ''active'' \<or> status s = ''closed''"
    by (simp add: rp_sessions_check_def)
  have np: "\<forall>c \<in> set (SessionsPage_load userId reads (run sts empty_db)). c_status c \<noteq> ''paused''"
  proof
    fix c assume "c \<in> set (SessionsPage_load userId reads (run sts empty_db))"
    from SessionsPage_load_status[OF this] obtain s where
      "s \<in> set (rp_sessions (run sts empty_db))" "c_status c = status s" by blast
    with st have "c_status c = ''active'' \<or> c_status c = ''closed''" by auto
    then show "c_status c \<noteq> ''paused''" by auto
  qed
  from np have "filteredSessions ''paused'' (SessionsPage_load userId reads (run sts empty_db)) = []"
    by (simp add: filteredSessions_def filter_empty_conv)
  moreover from np have "paused_count (SessionsPage_load userId reads (run sts empty_db)) = 0"
    by (simp add: paused_count_def filter_empty_conv)
  ultimately show ?thesis using st np by blast
qed

theorem paused_never_matches_witness:
  "run [InsertSession (Some 1) ex_session,
        InsertSession (Some 1) (ex_session\<lparr>s_id := 101, status := ''paused''\<rparr>),
        UpdateSessions (Some 1) 10 (\<lambda>s. True) (\<lambda>s. s\<lparr>status := ''paused''\<rparr>)] empty_db = ex_db \<and>
   map c_status (SessionsPage_load 1 [] ex_db) = [''active''] \<and>
   filteredSessions ''paused'' (SessionsPage_load 1 [] ex_db) = [] \<and>
   filteredSessions ''active'' (SessionsPage_load 1 [] ex_db) = SessionsPage_load 1 [] ex_db"
proof -
  have r: "run [InsertSession (Some 1) ex_session,
        InsertSession (Some 1) (ex_session\<lparr>s_id := 101, status := ''paused''\<rparr>),
        UpdateSessions (Some 1) 10 (\<lambda>s. True) (\<lambda>s. s\<lparr>status := ''paused''\<rparr>)] empty_db = ex_db"
    by (simp add: insert_rp_session_def update_rp_sessions_def update_rp_session_row_def
          update_rp_sessions_updated_at_def Let_def policy_defs ex_defs empty_db_def)
  have l: "map c_status (SessionsPage_load 1 [] ex_db) = [''active'']"
    by (simp add: SessionsPage_load_def array_sort_def order_desc_def Let_def policy_defs ex_defs)
  from paused_never_matches[of "[InsertSession (Some 1) ex_session,
        InsertSession (Some 1) (ex_session\<lparr>s_id := 101, status := ''paused''\<rparr>),
        UpdateSessions (Some 1) 10 (\<lambda>s. True) (\<lambda>s. s\<lparr>status := ''paused''\<rparr>)]" 1 "[]"]
  have p: "filteredSessions ''paused'' (SessionsPage_load 1 [] ex_db) = []"
    unfolding r by blast
  have "\<forall>c \<in> set (SessionsPage_load 1 [] ex_db). c_status c = ''active''"
  proof
    fix c assume "c \<in> set (SessionsPage_load 1 [] ex_db)"
    then have "c_status c \<in> set (map c_status (SessionsPage_load 1 [] ex_db))" by simp
    then show "c_status c = ''active''" unfolding l by simp
  qed
  then have a: "filteredSessions ''active'' (SessionsPage_load 1 [] ex_db) = SessionsPage_load 1 [] ex_db"
    by (simp add: filteredSessions_def)
  from r l p a show ?thesis by blast
qed

section \<open>The constraint on active sessions\<close>

text \<open>
  On a table that satisfies \<^verbatim>\<open>unique_active_session\<close>, the test made on an UPDATE is
  the test of the constraint on the table the UPDATE leaves; so the constraint holds in
  every database reached by the modelled statements from one in which it holds.
\<close>

lemma length_filter_key_le_1:
  "distinct (map f xs) \<Longrightarrow> length (filter (\<lambda>x. f x = c) xs) \<le> 1"
  by (induction xs) (auto simp: filter_empty_conv image_iff)

lemma length_filter_two_indices:
  assumes "i < j" "j < length xs" "P (xs ! i)" "P (xs ! j)"
  shows "1 < length (filter P xs)"
proof -
  have "{i, j} \<subseteq> {n. n < length xs \<and> P (xs ! n)}" using assms by auto
  then have "card {i, j} \<le> card {n. n < length xs \<and> P (xs ! n)}"
    by (intro card_mono) auto
  moreover have "card {i, j} = 2" using assms(1) by simp
  ultimately show ?thesis by (simp add: length_filter_conv_card)
qed

lemma unique_active_session_violated_iff:
  assumes "distinct (map unique_active_session old)" and "length new = length old"
  shows "unique_active_session_violated old new \<longleftrightarrow> \<not> distinct (map unique_active_session new)"
proof
  assume "unique_active_session_violated old new"
  then obtain s s' where "1 < length (filter (\<lambda>x. unique_active_session x = unique_active_session s') new)"
    by (auto simp: unique_active_session_violated_def)
  with length_filter_key_le_1[of unique_active_session new "unique_active_session s'"]
  show "\<not> distinct (map unique_active_session new)" by auto
next
  assume "\<not> distinct (map unique_active_session new)"
  then obtain i j where ij: "i < j" "j < length new"
    "unique_active_session (new ! i) = unique_active_session (new ! j)"
    by (auto simp: distinct_conv_nth nat_neq_iff)
  from ij assms have "unique_active_session (old ! i) \<noteq> unique_active_session (old ! j)"
    by (auto simp: distinct_conv_nth)
  with ij(3) have "unique_active_session (new ! i) \<noteq> unique_active_session (old ! i) \<or>
                   unique_active_session (new ! j) \<noteq> unique_active_session (old ! j)"
    by auto
  then obtain n where n: "n = i \<or> n = j"
    "unique_active_session (new ! n) \<noteq> unique_active_session (old ! n)"
    by blast
  from n(1) ij have nl: "n < length new" by auto
  with assms(2) have z: "(old ! n, new ! n) \<in> set (zip old new)"
    by (auto simp: set_zip)
  from n(1) ij(3) have "unique_active_session (new ! i) = unique_active_session (new ! n)"
    "unique_active_session (new ! j) = unique_active_session (new ! n)"
    by auto
  with ij(1,2) have "1 < length (filter (\<lambda>x. unique_active_session x = unique_active_session (new ! n)) new)"
    by (intro length_filter_two_indices[of i j]) auto
  with z n(2) show "unique_active_session_violated old new"
    unfolding unique_active_session_violated_def by (intro bexI[of _ "(old ! n, new ! n)"]) auto
qed

lemma update_rp_sessions_unique:
  assumes "update_rp_sessions uid now wh f d = Inr d'"
      and "distinct (map unique_active_session (rp_sessions d))"
  shows "distinct (map unique_active_session (rp_sessions d'))"
proof -
  from update_rp_sessions_Inr(4)[OF assms(1)]
  have len: "length (rp_sessions d') = length (rp_sessions d)"
    by (simp add: list_all2_lengthD)
  from assms(1) have "\<not> unique_active_session_violated (rp_sessions d) (rp_sessions d')"
    by (auto simp: update_rp_sessions_def split: sum.splits if_splits)
  with unique_active_session_violated_iff[OF assms(2) len] show ?thesis by simp
qed

lemma update_session_max_viewers_unique:
  assumes "update_session_max_viewers uid now ROW d = Inr d'"
      and "distinct (map unique_active_session (rp_sessions d))"
  shows "distinct (map unique_active_session (rp_sessions d'))"
proof (cases "d' = d")
  case True
  with assms(2) show ?thesis by simp
next
  case False
  with assms(1) obtain n where
    "update_rp_sessions uid now (\<lambda>s. s_id s = v_session_id ROW) (\<lambda>s. s\<lparr>max_viewers := Some n\<rparr>) d = Inr d'"
    by (auto simp: update_session_max_viewers_def Let_def split: option.splits if_splits)
  then show ?thesis using assms(2) by (rule update_rp_sessions_unique)
qed

lemma fire_triggers_unique:
  assumes "fire_triggers (\<lambda>OLD. update_session_max_viewers uid now (h OLD)) rs d = Inr d'"
      and "distinct (map unique_active_session (rp_sessions d))"
  shows "distinct (map unique_active_session (rp_sessions d'))"
  using assms
proof (induction rs arbitrary: d)
  case Nil
  then show ?case by simp
next
  case (Cons r rs)
  from Cons.prems(1) obtain d1 where d1: "update_session_max_viewers uid now (h r) d = Inr d1"
    "fire_triggers (\<lambda>OLD. update_session_max_viewers uid now (h OLD)) rs d1 = Inr d'"
    by (auto split: sum.splits)
  from update_session_max_viewers_unique[OF d1(1) Cons.prems(2)] Cons.IH[OF d1(2)]
  show ?case by blast
qed

lemma execute_unique:
  assumes "execute st d = Inr d'"
      and "distinct (map unique_active_session (rp_sessions d))"
  shows "distinct (map unique_active_session (rp_sessions d'))"
proof (cases st)
  case (InsertSession uid NEW)
  with assms show ?thesis
    by (auto simp: insert_rp_session_def split: if_splits)
next
  case (UpdateSessions uid now wh f)
  with assms(1) have "update_rp_sessions uid now wh f d = Inr d'" by simp
  then show ?thesis using assms(2) by (rule update_rp_sessions_unique)
next
  case (InsertMessage uid now new_id NEW)
  with assms(1) have ins: "insert_rp_session_message uid now new_id NEW d = Inr d'" by simp
  have "list_all2 (\<lambda>s s'. unique_active_session s' = unique_active_session s)
          (rp_sessions d) (rp_sessions d')"
    using insert_rp_session_message_step(5)[OF ins]
  proof (rule list_all2_mono)
    fix s s' :: rp_session
    assume "s_id s' = s_id s \<and> user_a s' = user_a s \<and> user_b s' = user_b s \<and>
              status s' = status s \<and> is_public s' = is_public s"
    then show "unique_active_session s' = unique_active_session s"
      by (simp add: unique_active_session_def)
  qed
  then have "map unique_active_session (rp_sessions d') = map unique_active_session (rp_sessions d)"
    by (rule list_all2_map_eq)
  with assms(2) show ?thesis by simp
next
  case (UpdateMessages uid wh f)
  with assms(1) have "update_rp_session_messages uid wh f d = Inr d'" by simp
  from update_rp_session_messages_Inr(1)[OF this] assms(2) show ?thesis by simp
next
  case (InsertViewer uid now NEW)
  with assms(1) have "update_session_max_viewers uid now NEW
      (d\<lparr>rp_session_viewers := rp_session_viewers d @ [NEW]\<rparr>) = Inr d'"
    by (auto simp: insert_rp_session_viewer_def split: if_splits)
  from update_session_max_viewers_unique[OF this] assms(2) show ?thesis by simp
next
  case (UpdateLastSeen uid now sid u t)
  with assms(1) have "update_last_seen uid now sid u t d = Inr d'" by simp
  from fire_triggers_unique[OF this[unfolded update_last_seen_def Let_def]] assms(2)
  show ?thesis by simp
next
  case (UpsertViewer uid now new_id sid u t)
  with assms(1) have "update_last_seen uid now sid u t d = Inr d' \<or>
      update_session_max_viewers uid now
        \<lparr>v_id = new_id, v_session_id = sid, v_user_id = u, joined_at = now, last_seen = t\<rparr>
        (d\<lparr>rp_session_viewers := rp_session_viewers d @
            [\<lparr>v_id = new_id, v_session_id = sid, v_user_id = u, joined_at = now, last_seen = t\<rparr>]\<rparr>) = Inr d'"
    by (auto simp: upsert_rp_session_viewer_def insert_rp_session_viewer_def Let_def split: if_splits)
  then show ?thesis
  proof
    assume "update_last_seen uid now sid u t d = Inr d'"
    from fire_triggers_unique[OF this[unfolded update_last_seen_def Let_def]] assms(2)
    show ?thesis by simp
  next
    assume "update_session_max_viewers uid now
        \<lparr>v_id = new_id, v_session_id = sid, v_user_id = u, joined_at = now, last_seen = t\<rparr>
        (d\<lparr>rp_session_viewers := rp_session_viewers d @
            [\<lparr>v_id = new_id, v_session_id = sid, v_user_id = u, joined_at = now, last_seen = t\<rparr>]\<rparr>) = Inr d'"
    from update_session_max_viewers_unique[OF this] assms(2) show ?thesis by simp
  qed
next
  case (DeleteViewer uid sid u)
  with assms show ?thesis by (auto simp: delete_rp_session_viewer_def)
qed

lemma run_unique_active_session:
  assumes "distinct (map unique_active_session (rp_sessions d))"
  shows "distinct (map unique_active_session (rp_sessions (run sts d)))"
  using assms
proof (induction sts arbitrary: d)
  case Nil
  then show ?case by simp
next
  case (Cons st sts)
  show ?case
  proof (cases "execute st d")
    case (Inl e)
    with Cons show ?thesis by simp
  next
    case (Inr d')
    from execute_unique[OF Inr Cons.prems] Cons.IH Inr show ?thesis by simp
  qed
qed

end
